theory Spec2Isabelle
  imports Main "HOL-Library.Sublist"
begin

section \<open>The reactive data manager of live-data (src/src/active-data.js)\<close>

text \<open>
  A shallow embedding of the class \<^verbatim>\<open>Manager\<close>. The JavaScript heap is explicit: source
  objects, proxies, updatable states and the shared prototype vectors live in lists indexed
  by their address. JavaScript \<^verbatim>\<open>Map\<close> and \<^verbatim>\<open>Set\<close> iterate in insertion order, so they are
  association lists and duplicate-free lists. User functions (the bodies of computed
  properties, reactions and batch actions) are inputs of the library; they are terms of a
  small expression language that the embedding evaluates, with fuel, through the same traps
  the proxies install.
\<close>

subsection \<open>Values, keys and source objects\<close>

text \<open>
  Property keys: strings, array indices (the canonical numeric strings; \<open>KStr\<close> never holds
  one), and the two symbols the manager creates in its constructor.
\<close>

datatype key = KStr string | KIdx nat | SymIsObservable | SymRegisterRead

datatype val =
    VUndef | VNull | VBool bool | VNum int | VNaN | VStr string
  | VObj nat          \<comment> \<open>a source object (address in \<open>objs\<close>)\<close>
  | VProxy nat        \<comment> \<open>a \<^verbatim>\<open>Proxy\<close> created by makeObservable (address in \<open>proxies\<close>)\<close>
  | VFun nat          \<comment> \<open>a user function (index in \<open>funs\<close>)\<close>
  | VUpd nat          \<comment> \<open>an updatableFunction closure (address of its state in \<open>upds\<close>)\<close>
  | VBuiltin string   \<comment> \<open>a built-in function such as \<^verbatim>\<open>Object\<close> or \<^verbatim>\<open>Array\<close>\<close>
  | VManager          \<comment> \<open>the manager instance\<close>
  | VRegisterRead nat \<comment> \<open>the registerRead closure of a proxy\<close>

text \<open>
  A number \<open>VNum n\<close> is the double \<open>n\<close>; the embedding computes with integers of magnitude up
  to \<open>2^53\<close>, where doubles are exact, and \<open>VBuiltin\<close> names a built-in function by its path
  (\<^verbatim>\<open>Object\<close>, \<^verbatim>\<open>Array.prototype.push\<close>). An accessor property holds its \<^verbatim>\<open>get\<close> and \<^verbatim>\<open>set\<close>,
  \<open>VUndef\<close> when absent; a data property is writable.
\<close>

datatype property = Data val | Accessor val val

text \<open>A prototype: a source object, \<^verbatim>\<open>Object.prototype\<close>, \<^verbatim>\<open>Array.prototype\<close>, the
  prototype of some other class, or \<^verbatim>\<open>null\<close>.\<close>

datatype proto = PObj nat | PObject | PArray | POther | PNull

text \<open>
  A source object is extensible and its properties are enumerable. \<open>o_fixed\<close> lists the keys
  of its own properties that are not configurable, as \<^verbatim>\<open>Object.defineProperty\<close> leaves them
  by default; the \<^verbatim>\<open>length\<close> of an array is not configurable either.
\<close>

record obj =
  o_props :: "(key \<times> property) list"
  o_proto :: proto
  o_isArray :: bool
  o_fixed :: "key list"

definition nonconfigurable :: "obj \<Rightarrow> key \<Rightarrow> bool" where
  "nonconfigurable ob k =
     (map_of (o_props ob) k \<noteq> None \<and> (k \<in> set (o_fixed ob) \<or> (o_isArray ob \<and> k = KStr ''length'')))"

text \<open>\<open>IterationLimit\<close> is the \<^verbatim>\<open>Error\<close> with message \<^verbatim>\<open>Max iterations exceeded!\<close>;
  \<open>Unmodelled\<close> marks JavaScript behaviour outside this embedding.\<close>

datatype error = TypeError | RangeError | IterationLimit | Unmodelled

text \<open>Strict equality \<^verbatim>\<open>===\<close>: \<^verbatim>\<open>NaN\<close> differs from itself, objects compare by address.\<close>

definition strict_eq :: "val \<Rightarrow> val \<Rightarrow> bool" where
  "strict_eq a b = (a \<noteq> VNaN \<and> a = b)"

fun truthy :: "val \<Rightarrow> bool" where
  "truthy VUndef = False"
| "truthy VNull = False"
| "truthy (VBool b) = b"
| "truthy (VNum n) = (n \<noteq> 0)"
| "truthy VNaN = False"
| "truthy (VStr s) = (s \<noteq> [])"
| "truthy _ = True"

fun typeof_object :: "val \<Rightarrow> bool" where
  "typeof_object VNull = True"
| "typeof_object (VObj _) = True"
| "typeof_object (VProxy _) = True"
| "typeof_object VManager = True"
| "typeof_object _ = False"

fun typeof_function :: "val \<Rightarrow> bool" where
  "typeof_function (VFun _) = True"
| "typeof_function (VUpd _) = True"
| "typeof_function (VBuiltin _) = True"
| "typeof_function (VRegisterRead _) = True"
| "typeof_function _ = False"

text \<open>Primitives in the sense of the specification: everything that is neither an object
  nor a callable.\<close>

fun is_primitive :: "val \<Rightarrow> bool" where
  "is_primitive VUndef = True"
| "is_primitive VNull = True"
| "is_primitive (VBool _) = True"
| "is_primitive (VNum _) = True"
| "is_primitive VNaN = True"
| "is_primitive (VStr _) = True"
| "is_primitive _ = False"

fun is_weakmap_key :: "val \<Rightarrow> bool" where
  "is_weakmap_key v = (\<not> is_primitive v)"

subsection \<open>Maps and sets in insertion order\<close>

definition nth_opt :: "'a list \<Rightarrow> nat \<Rightarrow> 'a option" where
  "nth_opt xs i = (if i < length xs then Some (xs ! i) else None)"

fun jsmap_set :: "'k \<Rightarrow> 'v \<Rightarrow> ('k \<times> 'v) list \<Rightarrow> ('k \<times> 'v) list" where
  "jsmap_set k v [] = [(k, v)]"
| "jsmap_set k v ((k', v') # m) = (if k = k' then (k, v) # m else (k', v') # jsmap_set k v m)"

definition jsmap_delete :: "'k \<Rightarrow> ('k \<times> 'v) list \<Rightarrow> ('k \<times> 'v) list" where
  "jsmap_delete k m = filter (\<lambda>kv. fst kv \<noteq> k) m"

definition jsset_add :: "'a \<Rightarrow> 'a list \<Rightarrow> 'a list" where
  "jsset_add x xs = (if x \<in> set xs then xs else xs @ [x])"

definition jsset_delete :: "'a \<Rightarrow> 'a list \<Rightarrow> 'a list" where
  "jsset_delete x xs = filter (\<lambda>y. y \<noteq> x) xs"

fun index_of :: "'a list \<Rightarrow> 'a \<Rightarrow> int" where
  "index_of [] x = - 1"
| "index_of (y # ys) x = (if y = x then 0 else (let i = index_of ys x in if i < 0 then - 1 else i + 1))"

subsection \<open>The manager's state\<close>

text \<open>
  \<open>updatableStateEx\<close>: the per-subscriber metadata of a subscription list. \<open>ex_prototypes\<close>
  is the \<^verbatim>\<open>Map\<close> from the reader's object (\<^verbatim>\<open>rootObj\<close>) to the prototype vector, an array
  that several ancestors share; it is held by its address in \<open>arrays\<close>.
\<close>

record ex =
  ex_root :: bool
  ex_prototypes :: "(proto \<times> nat) list option"

record updates =
  updatableStates :: "nat list"
  updatableStateMap :: "(nat \<times> ex) list"

record proxy =
  p_target :: nat
  toUpdate :: "(key \<times> updates) list"
  watchDeepSection :: bool

text \<open>
  \<open>updatableState\<close>, together with the \<^verbatim>\<open>obj\<close> and \<^verbatim>\<open>call\<close> its closure captured.
  \<open>u_onInvalidate\<close> is \<open>ReactionHook\<close> for the closure makeReaction installs, which adds
  the updatable to \<^verbatim>\<open>reactionsToUpdate\<close>, \<open>NoHook\<close> for a falsy \<^verbatim>\<open>onInvalidate\<close>, and
  \<open>UserHook h\<close> for any other value \<open>h\<close> that a caller of \<^verbatim>\<open>updatable\<close> supplied.
  An \<open>uninit\<close> closure is kept as the data it captured: the proxy whose table it edits and
  \<^verbatim>\<open>currentKey\<close>. The \<^verbatim>\<open>updates\<close> object it captured is the one the table holds under that
  key for as long as the closure exists, since an \<^verbatim>\<open>updates\<close> object leaves the table only
  when its last member has run its closure.
\<close>

datatype hook = NoHook | ReactionHook | UserHook val

record upd =
  u_valid :: bool
  u_onInvalidate :: hook
  u_value :: val
  u_deps :: "nat list"
  u_uninit :: "(nat \<times> nat \<times> key) list"
  u_computing :: bool
  u_invalidIteration :: bool
  u_obj :: val
  u_call :: val

record options =
  enabled :: bool
  prototypes :: bool
  immediateReaction :: bool
  watchKey :: key
  watchDeepKey :: key
  dataSourceKey :: key

text \<open>Bodies of user functions. \<open>This\<close> is the receiver and \<open>Arg\<close> the first parameter;
  \<open>Seq\<close> is the comma operator and \<open>Cond\<close> the conditional \<^verbatim>\<open>c ? a : b\<close>.\<close>

datatype expr =
    Lit val
  | This
  | Arg
  | Get expr key
  | Set expr key expr
  | Del expr key
  | Plus expr expr
  | Seq expr expr
  | Cond expr expr expr

text \<open>
  \<open>timers\<close> counts the callbacks \<^verbatim>\<open>setTimeout(() => this.run())\<close> has queued and \<open>warnings\<close>
  is what \<^verbatim>\<open>console.warn\<close> received. Two logs observe the run without taking part in it:
  \<open>calls\<close> records every execution of a user function by an updatable, with the context it
  was given (what a spy on the function would see), and \<open>invalidated\<close> records every call of
  \<^verbatim>\<open>invalidateDeps\<close> with the state it was called for.
\<close>

record state =
  objs :: "obj list"
  proxies :: "proxy list"
  arrays :: "proto list list"
  upds :: "upd list"
  funs :: "expr list"
  observables :: "(nat \<times> nat) list"
  cache :: "((val \<times> val) \<times> nat) list"
  opts :: options
  callStack :: "nat list"
  reactionsToUpdate :: "nat list"
  mgr_valid :: bool
  inRunSection :: bool
  runScheduled :: bool
  timers :: nat
  onAfterRun :: val
  warnings :: "string list"
  calls :: "(nat \<times> val) list"
  invalidated :: "nat list"

definition maxIterations :: nat where
  "maxIterations = 10"

definition default_options :: options where
  "default_options = \<lparr> enabled = True, prototypes = False, immediateReaction = False,
     watchKey = KStr ''$$watch'', watchDeepKey = KStr ''$$watchDeep'',
     dataSourceKey = KStr ''$$dataSource'' \<rparr>"

text \<open>The state after \<^verbatim>\<open>new Manager(options)\<close>, over a heap of source objects and a table of
  user functions. \<^verbatim>\<open>manager.valid\<close> and the other flags start \<^verbatim>\<open>undefined\<close>, which every
  test in the source reads as false.\<close>

definition new_Manager :: "options \<Rightarrow> obj list \<Rightarrow> expr list \<Rightarrow> state" where
  "new_Manager os hp fs = \<lparr> objs = hp, proxies = [], arrays = [], upds = [], funs = fs,
     observables = [], cache = [], opts = os, callStack = [], reactionsToUpdate = [],
     mgr_valid = False, inRunSection = False, runScheduled = False, timers = 0,
     onAfterRun = VUndef, warnings = [], calls = [], invalidated = [] \<rparr>"

subsection \<open>Heap access\<close>

definition get_obj :: "state \<Rightarrow> nat \<Rightarrow> obj option" where
  "get_obj s a = nth_opt (objs s) a"

definition get_proxy :: "state \<Rightarrow> nat \<Rightarrow> proxy option" where
  "get_proxy s p = nth_opt (proxies s) p"

definition get_upd :: "state \<Rightarrow> nat \<Rightarrow> upd option" where
  "get_upd s u = nth_opt (upds s) u"

definition map_obj :: "(obj \<Rightarrow> obj) \<Rightarrow> nat \<Rightarrow> state \<Rightarrow> state" where
  "map_obj f a s = s\<lparr>objs := (objs s)[a := f (objs s ! a)]\<rparr>"

definition map_proxy :: "(proxy \<Rightarrow> proxy) \<Rightarrow> nat \<Rightarrow> state \<Rightarrow> state" where
  "map_proxy f p s = s\<lparr>proxies := (proxies s)[p := f (proxies s ! p)]\<rparr>"

definition map_upd :: "(upd \<Rightarrow> upd) \<Rightarrow> nat \<Rightarrow> state \<Rightarrow> state" where
  "map_upd f u s = s\<lparr>upds := (upds s)[u := f (upds s ! u)]\<rparr>"

subsection \<open>Property lookup on source objects\<close>

text \<open>
  The built-in prototypes at the end of a chain, by the names of their own members.
  \<open>standard_members\<close> are the members that every engine able to run the module has (those
  of ECMAScript 2015). \<open>engine_members\<close> are the members that only some engines have (Annex B
  and the later editions): what a read of them gives is not known to the embedding. A chain
  that ends in \<open>PNull\<close> belongs to an object made by \<^verbatim>\<open>Object.create(null)\<close>. Of \<open>POther\<close>, the
  prototype of some other class, only the \<^verbatim>\<open>constructor\<close> is known, and that it is neither
  \<^verbatim>\<open>Object\<close> nor \<^verbatim>\<open>Array\<close>.
\<close>

fun standard_members :: "proto \<Rightarrow> string list" where
  "standard_members PObject =
     [''constructor'', ''hasOwnProperty'', ''isPrototypeOf'', ''propertyIsEnumerable'',
      ''toLocaleString'', ''toString'', ''valueOf'']"
| "standard_members PArray =
     [''concat'', ''constructor'', ''copyWithin'', ''entries'', ''every'', ''fill'', ''filter'',
      ''find'', ''findIndex'', ''forEach'', ''indexOf'', ''join'', ''keys'', ''lastIndexOf'',
      ''length'', ''map'', ''pop'', ''push'', ''reduce'', ''reduceRight'', ''reverse'', ''shift'',
      ''slice'', ''some'', ''sort'', ''splice'', ''toLocaleString'', ''toString'', ''unshift'']"
| "standard_members _ = []"

fun engine_members :: "proto \<Rightarrow> string list" where
  "engine_members PObject =
     [''__defineGetter__'', ''__defineSetter__'', ''__lookupGetter__'', ''__lookupSetter__'',
      ''__proto__'']"
| "engine_members PArray =
     [''at'', ''findLast'', ''findLastIndex'', ''flat'', ''flatMap'', ''includes'', ''toReversed'',
      ''toSorted'', ''toSpliced'', ''values'', ''with'']"
| "engine_members _ = []"

text \<open>The value of a standard member; the \<^verbatim>\<open>length\<close> of \<^verbatim>\<open>Array.prototype\<close> is 0.\<close>

fun builtin_own :: "proto \<Rightarrow> string \<Rightarrow> val" where
  "builtin_own PObject k =
     (if k = ''constructor'' then VBuiltin ''Object'' else VBuiltin (''Object.prototype.'' @ k))"
| "builtin_own PArray k =
     (if k = ''constructor'' then VBuiltin ''Array''
      else if k = ''length'' then VNum 0 else VBuiltin (''Array.prototype.'' @ k))"
| "builtin_own _ k = VBuiltin ''Other''"

text \<open>
  What a key that no source object of the chain has resolves to at the end \<open>bp\<close> of the
  chain; \<open>None\<close> when the embedding does not know. \<^verbatim>\<open>Array.prototype\<close> inherits from
  \<^verbatim>\<open>Object.prototype\<close>. The two symbols are fresh, so no built-in prototype has them.
\<close>

definition builtin_get :: "proto \<Rightarrow> key \<Rightarrow> val option" where
  "builtin_get bp k =
     (case bp of
        PNull \<Rightarrow> Some VUndef
      | PObj a \<Rightarrow> None
      | POther \<Rightarrow>
          (case k of
             KStr n \<Rightarrow> (if n = ''constructor'' then Some (VBuiltin ''Other'') else None)
           | KIdx i \<Rightarrow> None
           | _ \<Rightarrow> Some VUndef)
      | _ \<Rightarrow>
          (case k of
             KStr n \<Rightarrow>
               (if n \<in> set (standard_members bp) then Some (builtin_own bp n)
                else if n \<in> set (engine_members bp) then None
                else if n \<in> set (standard_members PObject) then Some (builtin_own PObject n)
                else if n \<in> set (engine_members PObject) then None
                else Some VUndef)
           | _ \<Rightarrow> Some VUndef))"

text \<open>
  \<^verbatim>\<open>obj[key]\<close> starts with a walk up the prototype chain. Prototype chains are acyclic, so
  the walk visits at most as many objects as the heap holds; \<open>Broken\<close> is the answer on a heap
  that is no JavaScript heap (a dangling address or a cyclic chain).
\<close>

datatype lookup = Found property | AtEnd proto | Broken

fun find_prop_fuel :: "nat \<Rightarrow> obj list \<Rightarrow> nat \<Rightarrow> key \<Rightarrow> lookup" where
  "find_prop_fuel 0 hp a k = Broken"
| "find_prop_fuel (Suc n) hp a k =
     (case nth_opt hp a of
        None \<Rightarrow> Broken
      | Some ob \<Rightarrow>
          (case map_of (o_props ob) k of
             Some pr \<Rightarrow> Found pr
           | None \<Rightarrow> (case o_proto ob of PObj a' \<Rightarrow> find_prop_fuel n hp a' k | bp \<Rightarrow> AtEnd bp)))"

definition find_prop :: "state \<Rightarrow> nat \<Rightarrow> key \<Rightarrow> lookup" where
  "find_prop s a k = find_prop_fuel (length (objs s)) (objs s) a k"

definition getOwnPropertyDescriptor :: "state \<Rightarrow> nat \<Rightarrow> key \<Rightarrow> property option" where
  "getOwnPropertyDescriptor s a k =
     (case get_obj s a of None \<Rightarrow> None | Some ob \<Rightarrow> map_of (o_props ob) k)"

text \<open>
  \<^verbatim>\<open>x.hasOwnProperty(key)\<close> for an entry of a prototype vector. The method comes from
  \<^verbatim>\<open>Object.prototype\<close>: an object whose chain ends in \<^verbatim>\<open>null\<close> has none, and the call throws.
  An object that defines \<^verbatim>\<open>hasOwnProperty\<close> itself, or whose chain ends in another class, is
  outside the embedding, and so are the members that only some engines have.
\<close>

definition hasOwnProperty :: "state \<Rightarrow> proto \<Rightarrow> key \<Rightarrow> error + bool" where
  "hasOwnProperty s e k =
     (case e of
        PObj a \<Rightarrow>
          (case find_prop s a (KStr ''hasOwnProperty'') of
             AtEnd PNull \<Rightarrow> Inl TypeError
           | AtEnd PObject \<Rightarrow> Inr (getOwnPropertyDescriptor s a k \<noteq> None)
           | AtEnd PArray \<Rightarrow> Inr (getOwnPropertyDescriptor s a k \<noteq> None)
           | _ \<Rightarrow> Inl Unmodelled)
      | PNull \<Rightarrow> Inl TypeError
      | POther \<Rightarrow> Inl Unmodelled
      | bp \<Rightarrow>
          (case k of
             KStr n \<Rightarrow>
               (if n \<in> set (standard_members bp) then Inr True
                else if n \<in> set (engine_members bp) then Inl Unmodelled
                else Inr False)
           | _ \<Rightarrow> Inr False))"

text \<open>\<^verbatim>\<open>Object.keys\<close>: the enumerable own string keys, indices first in ascending order. The
  \<^verbatim>\<open>length\<close> of an array is not enumerable.\<close>

definition object_keys :: "obj \<Rightarrow> key list" where
  "object_keys ob =
     map KIdx (sort (concat (map (\<lambda>kv. case fst kv of KIdx i \<Rightarrow> [i] | _ \<Rightarrow> []) (o_props ob))))
     @ concat (map (\<lambda>kv. case fst kv of
                       KStr n \<Rightarrow> (if o_isArray ob \<and> n = ''length'' then [] else [KStr n])
                     | _ \<Rightarrow> []) (o_props ob))"

text \<open>
  The store of a data property on the object itself, the last step of \<^verbatim>\<open>obj[key] = val\<close>.
  An array keeps its \<^verbatim>\<open>length\<close> above every index (the keys below \<open>2^32 - 1\<close>) and drops the
  elements a shorter \<^verbatim>\<open>length\<close> cuts off. A \<^verbatim>\<open>length\<close> must be a number from 0 to \<open>2^32 - 1\<close>:
  \<^verbatim>\<open>undefined\<close> and \<^verbatim>\<open>NaN\<close> convert to none, and the conversion of the other values is not
  modelled. Nor is a store over an own property that is not configurable, which may be
  read-only.
\<close>

definition array_length :: "obj \<Rightarrow> nat" where
  "array_length ob = (case map_of (o_props ob) (KStr ''length'') of
                        Some (Data (VNum n)) \<Rightarrow> nat n | _ \<Rightarrow> 0)"

definition store_own :: "obj \<Rightarrow> key \<Rightarrow> val \<Rightarrow> error + obj" where
  "store_own ob k v =
     (if k \<in> set (o_fixed ob) then Inl Unmodelled
      else if \<not> o_isArray ob then Inr (ob\<lparr>o_props := jsmap_set k (Data v) (o_props ob)\<rparr>)
      else (case k of
              KIdx i \<Rightarrow>
                Inr (ob\<lparr>o_props :=
                  (if i < 4294967295 \<and> array_length ob \<le> i
                   then jsmap_set (KStr ''length'') (Data (VNum (int i + 1)))
                   else (\<lambda>m. m)) (jsmap_set k (Data v) (o_props ob))\<rparr>)
            | KStr n \<Rightarrow>
                (if n = ''length'' then
                   (case v of
                      VNum m \<Rightarrow>
                        (if m < 0 \<or> 4294967296 \<le> m then Inl RangeError
                         else Inr (ob\<lparr>o_props := jsmap_set k (Data v)
                                 (filter (\<lambda>kv. case fst kv of KIdx i \<Rightarrow> int i < m | _ \<Rightarrow> True)
                                    (o_props ob))\<rparr>))
                    | VUndef \<Rightarrow> Inl RangeError
                    | VNaN \<Rightarrow> Inl RangeError
                    | _ \<Rightarrow> Inl Unmodelled)
                 else Inr (ob\<lparr>o_props := jsmap_set k (Data v) (o_props ob)\<rparr>))
            | _ \<Rightarrow> Inr (ob\<lparr>o_props := jsmap_set k (Data v) (o_props ob)\<rparr>)))"

definition define_own :: "state \<Rightarrow> nat \<Rightarrow> key \<Rightarrow> val \<Rightarrow> error + state" where
  "define_own s a k v =
     (case get_obj s a of
        None \<Rightarrow> Inl Unmodelled
      | Some ob \<Rightarrow>
          (case store_own ob k v of
             Inl e \<Rightarrow> Inl e
           | Inr ob' \<Rightarrow> Inr (s\<lparr>objs := (objs s)[a := ob']\<rparr>)))"

subsection \<open>invalidateDeps\<close>

text \<open>
  \<^verbatim>\<open>invalidateDeps\<close> (lines 66-77) recurses through the consumers of an updatable state. It
  descends only from a state that was valid and marks it invalid first, so it always returns;
  the embedding runs the recursion on an explicit stack of pending work, which makes this
  visible. \<open>Visit (Some u) d\<close> is the call for the member \<open>d\<close> that \<^verbatim>\<open>u.deps.forEach\<close> has still
  to reach; as \<^verbatim>\<open>forEach\<close> does, it is skipped when \<open>d\<close> has left \<open>u.deps\<close> in the meantime.
  \<open>Clear u\<close> is the final \<^verbatim>\<open>updatableState.deps.clear()\<close>. The hook of line 69 is the closure
  of makeReaction or absent: a hook that a caller supplied is user code, and \<^verbatim>\<open>updateProperty\<close>
  below answers \<open>Unmodelled\<close> instead of invalidating in a manager that holds one.
\<close>

datatype task = Visit "nat option" nat | Clear nat

definition enter :: "state \<Rightarrow> nat \<Rightarrow> state \<times> task list" where
  "enter s u =
     (case get_upd s u of
        None \<Rightarrow> (s, [])
      | Some st \<Rightarrow>
          (let s1 = s\<lparr>mgr_valid := False, invalidated := invalidated s @ [u]\<rparr>;
               s2 = map_upd (\<lambda>x. x\<lparr>u_invalidIteration := True\<rparr>) u s1;
               s3 = (if u_onInvalidate st = ReactionHook
                     then s2\<lparr>reactionsToUpdate := jsset_add u (reactionsToUpdate s2)\<rparr> else s2)
           in if u_valid st
              then (map_upd (\<lambda>x. x\<lparr>u_valid := False\<rparr>) u s3,
                    map (Visit (Some u)) (u_deps st) @ [Clear u])
              else (map_upd (\<lambda>x. x\<lparr>u_deps := []\<rparr>) u s3, [])))"

definition still_member :: "state \<Rightarrow> nat option \<Rightarrow> nat \<Rightarrow> bool" where
  "still_member s par d =
     (case par of
        None \<Rightarrow> True
      | Some u \<Rightarrow> (case get_upd s u of None \<Rightarrow> False | Some st \<Rightarrow> d \<in> set (u_deps st)))"

definition valid_count :: "state \<Rightarrow> nat" where
  "valid_count s = length (filter u_valid (upds s))"

lemma filter_length_list_update:
  "i < length xs \<Longrightarrow> P y = P (xs ! i) \<Longrightarrow> length (filter P (xs[i := y])) = length (filter P xs)"
proof (induction xs arbitrary: i)
  case Nil
  then show ?case by simp
next
  case (Cons x xs)
  then show ?case by (cases i) auto
qed

lemma filter_length_list_update_less:
  "i < length xs \<Longrightarrow> P (xs ! i) \<Longrightarrow> \<not> P y \<Longrightarrow> length (filter P (xs[i := y])) < length (filter P xs)"
proof (induction xs arbitrary: i)
  case Nil
  then show ?case by simp
next
  case (Cons x xs)
  then show ?case by (cases i) auto
qed

lemma valid_count_map_upd_same:
  "(\<And>x. u_valid (f x) = u_valid x) \<Longrightarrow> valid_count (map_upd f u s) = valid_count s"
  by (cases "u < length (upds s)")
     (simp_all add: valid_count_def map_upd_def filter_length_list_update list_update_beyond)

lemma valid_count_fields [simp]:
  "valid_count (s\<lparr>mgr_valid := b\<rparr>) = valid_count s"
  "valid_count (s\<lparr>reactionsToUpdate := r\<rparr>) = valid_count s"
  "valid_count (s\<lparr>invalidated := l\<rparr>) = valid_count s"
  by (simp_all add: valid_count_def)

lemma valid_count_enter_invalid:
  "get_upd s u = Some st \<Longrightarrow> \<not> u_valid st \<Longrightarrow> enter s u = (s', new) \<Longrightarrow>
     new = [] \<and> valid_count s' = valid_count s"
  by (auto simp: enter_def Let_def valid_count_map_upd_same)

lemma valid_count_enter_valid:
  assumes "get_upd s u = Some st" and "u_valid st" and "enter s u = (s', new)"
  shows "valid_count s' < valid_count s"
proof -
  have u: "u < length (upds s)" and st: "upds s ! u = st"
    using assms(1) by (auto simp: get_upd_def nth_opt_def split: if_splits)
  let ?s3 = "map_upd (\<lambda>x. x\<lparr>u_invalidIteration := True\<rparr>) u
               (s\<lparr>mgr_valid := False, invalidated := invalidated s @ [u]\<rparr>)"
  have len: "u < length (upds ?s3)" and val: "u_valid (upds ?s3 ! u)"
    using u st assms(2) by (simp_all add: map_upd_def)
  have cnt: "valid_count ?s3 = valid_count s"
    by (simp add: valid_count_def map_upd_def filter_length_list_update u)
  have "length (filter u_valid ((upds ?s3)[u := (upds ?s3 ! u)\<lparr>u_valid := False\<rparr>]))
        < length (filter u_valid (upds ?s3))"
    using len val by (intro filter_length_list_update_less) simp_all
  then show ?thesis
    using assms cnt by (auto simp: enter_def Let_def valid_count_def map_upd_def split: if_splits)
qed

lemma enter_decreases:
  "enter s d = (s', new) \<Longrightarrow>
     valid_count s' < valid_count s \<or> (valid_count s' = valid_count s \<and> new = [])"
proof (cases "get_upd s d")
  case None
  assume "enter s d = (s', new)"
  with None show ?thesis by (simp add: enter_def)
next
  case (Some st)
  assume e: "enter s d = (s', new)"
  show ?thesis
  proof (cases "u_valid st")
    case True
    then show ?thesis using valid_count_enter_valid [OF Some True e] by simp
  next
    case False
    then show ?thesis using valid_count_enter_invalid [OF Some False e] by simp
  qed
qed

function invalidate_tasks :: "state \<Rightarrow> task list \<Rightarrow> state" where
  "invalidate_tasks s [] = s"
| "invalidate_tasks s (Clear u # ts) = invalidate_tasks (map_upd (\<lambda>x. x\<lparr>u_deps := []\<rparr>) u s) ts"
| "invalidate_tasks s (Visit par d # ts) =
     (if still_member s par d
      then (case enter s d of (s', new) \<Rightarrow> invalidate_tasks s' (new @ ts))
      else invalidate_tasks s ts)"
  by pat_completeness auto

termination
proof (relation "inv_image (less_than <*lex*> less_than) (\<lambda>(s, ts). (valid_count s, length ts))")
  show "wf (inv_image (less_than <*lex*> less_than) (\<lambda>(s, ts). (valid_count s, length ts)))"
    by (intro wf_inv_image wf_lex_prod wf_less_than)
next
  fix s u ts
  show "((map_upd (\<lambda>x. x\<lparr>u_deps := []\<rparr>) u s, ts), (s, Clear u # ts))
        \<in> inv_image (less_than <*lex*> less_than) (\<lambda>(s, ts). (valid_count s, length ts))"
    by (simp add: valid_count_map_upd_same)
next
  fix s par d ts s' new
  assume "still_member s par d" and "(s', new) = enter s d"
  then have "enter s d = (s', new)" by simp
  from enter_decreases [OF this]
  show "((s', new @ ts), (s, Visit par d # ts))
        \<in> inv_image (less_than <*lex*> less_than) (\<lambda>(s, ts). (valid_count s, length ts))"
    by auto
next
  fix s par d ts
  show "((s, ts), (s, Visit par d # ts))
        \<in> inv_image (less_than <*lex*> less_than) (\<lambda>(s, ts). (valid_count s, length ts))"
    by simp
qed

definition invalidateDeps :: "state \<Rightarrow> nat \<Rightarrow> state" where
  "invalidateDeps s u = invalidate_tasks s [Visit None u]"

subsection \<open>updateProperty: who is invalidated\<close>

text \<open>
  A step of the manager returns a value or throws, and leaves a state either way (what an
  aborted call has already written stays written).
\<close>

type_synonym result = "(error + val) \<times> state"

text \<open>
  The \<^verbatim>\<open>for\<close> loop of lines 188-193 over the entries of a prototype vector after the
  written object: \<open>Inr True\<close> when none of them has the key as an own property.
\<close>

fun no_closer_own :: "state \<Rightarrow> key \<Rightarrow> proto list \<Rightarrow> error + bool" where
  "no_closer_own s k [] = Inr True"
| "no_closer_own s k (e # es) =
     (case hasOwnProperty s e k of
        Inl err \<Rightarrow> Inl err
      | Inr True \<Rightarrow> Inr False
      | Inr False \<Rightarrow> no_closer_own s k es)"

definition vector_invalidates :: "state \<Rightarrow> nat \<Rightarrow> key \<Rightarrow> proto list \<Rightarrow> error + bool" where
  "vector_invalidates s a k vec = no_closer_own s k (drop (nat (index_of vec (PObj a) + 1)) vec)"

text \<open>\<^verbatim>\<open>[...updatableStateEx.prototypes.values()].some(...)\<close>, over the addresses of the vectors.\<close>

fun some_vector :: "state \<Rightarrow> nat \<Rightarrow> key \<Rightarrow> nat list \<Rightarrow> error + bool" where
  "some_vector s a k [] = Inr False"
| "some_vector s a k (v # vs) =
     (case nth_opt (arrays s) v of
        None \<Rightarrow> Inl Unmodelled
      | Some vec \<Rightarrow>
          (case vector_invalidates s a k vec of
             Inl err \<Rightarrow> Inl err
           | Inr True \<Rightarrow> Inr True
           | Inr False \<Rightarrow> some_vector s a k vs))"

text \<open>
  The decision of lines 178-199 for one subscriber with metadata \<open>e\<close>: invalidate it when it
  was registered at the written object itself, or when one of its vectors is not shadowed.
\<close>

definition must_invalidate :: "state \<Rightarrow> nat \<Rightarrow> key \<Rightarrow> ex \<Rightarrow> error + bool" where
  "must_invalidate s a k e =
     (if ex_root e then Inr True
      else (case ex_prototypes e of
              None \<Rightarrow> Inl TypeError
            | Some m \<Rightarrow> some_vector s a k (map snd m)))"

text \<open>Whether some updatable state of the manager carries a hook that a caller supplied.\<close>

definition user_hooks :: "state \<Rightarrow> bool" where
  "user_hooks s = list_ex (\<lambda>x. case u_onInvalidate x of UserHook h \<Rightarrow> True | _ \<Rightarrow> False) (upds s)"

text \<open>\<^verbatim>\<open>updates.updatableStates.forEach\<close> (lines 174-201).\<close>

fun updateProperty_states :: "state \<Rightarrow> nat \<Rightarrow> key \<Rightarrow> updates \<Rightarrow> nat list \<Rightarrow> result" where
  "updateProperty_states s a k ups [] = (Inr VUndef, s)"
| "updateProperty_states s a k ups (u # us) =
     (case map_of (updatableStateMap ups) u of
        None \<Rightarrow> (Inl TypeError, s)
      | Some e \<Rightarrow>
          (case must_invalidate s a k e of
             Inl err \<Rightarrow> (Inl err, s)
           | Inr b \<Rightarrow>
               (if b \<and> user_hooks s then (Inl Unmodelled, s)
                else updateProperty_states (if b then invalidateDeps s u else s) a k ups us)))"

text \<open>The body of \<^verbatim>\<open>[key, manager.options.watchKey].forEach\<close> for one \<^verbatim>\<open>updKey\<close>. The own-key
  test of the vectors uses \<^verbatim>\<open>key\<close>, not \<^verbatim>\<open>updKey\<close>.\<close>

definition updateProperty_key :: "state \<Rightarrow> nat \<Rightarrow> key \<Rightarrow> key \<Rightarrow> result" where
  "updateProperty_key s p k updKey =
     (case get_proxy s p of
        None \<Rightarrow> (Inl Unmodelled, s)
      | Some px \<Rightarrow>
          (case map_of (toUpdate px) updKey of
             None \<Rightarrow> (Inr VUndef, s)
           | Some ups \<Rightarrow> updateProperty_states s (p_target px) k ups (updatableStates ups)))"

text \<open>Lines 171-203 of \<^verbatim>\<open>updateProperty\<close>: the invalidations, before the scheduler is asked.\<close>

definition updateProperty_invalidate :: "state \<Rightarrow> nat \<Rightarrow> key \<Rightarrow> result" where
  "updateProperty_invalidate s p k =
     (case updateProperty_key s p k k of
        (Inl err, s1) \<Rightarrow> (Inl err, s1)
      | (Inr _, s1) \<Rightarrow> updateProperty_key s1 p k (watchKey (opts s1)))"

subsection \<open>makeUpdatable and the uninit closures\<close>

definition new_updatableState :: "hook \<Rightarrow> val \<Rightarrow> val \<Rightarrow> upd" where
  "new_updatableState onInv ob call = \<lparr> u_valid = False, u_onInvalidate = onInv,
     u_value = VUndef, u_deps = [], u_uninit = [], u_computing = False,
     u_invalidIteration = False, u_obj = ob, u_call = call \<rparr>"

text \<open>
  \<^verbatim>\<open>makeUpdatable(call, {obj, onInvalidate})\<close> (lines 289-365), up to the closure it returns,
  whose body is \<open>updatableFunction\<close> below. The two-level cache is one list keyed by the pair
  of host and function. A primitive host is refused by \<^verbatim>\<open>WeakMap.set\<close>. The hook is what
  \<open>settings_hook\<close> makes of the caller's \<^verbatim>\<open>onInvalidate\<close>, or the closure of makeReaction.
\<close>

definition settings_hook :: "val \<Rightarrow> hook" where
  "settings_hook h = (if truthy h then UserHook h else NoHook)"

definition makeUpdatable :: "state \<Rightarrow> val \<Rightarrow> val \<Rightarrow> hook \<Rightarrow> result" where
  "makeUpdatable s call ob0 onInv =
     (case call of
        VUpd u \<Rightarrow> (Inr call, s)
      | VUndef \<Rightarrow> (Inl TypeError, s)
      | VNull \<Rightarrow> (Inl TypeError, s)
      | _ \<Rightarrow>
          (let ob = (if ob0 = VUndef \<or> ob0 = VNull then VManager else ob0) in
           case map_of (cache s) (ob, call) of
             Some u \<Rightarrow> (Inr (VUpd u), s)
           | None \<Rightarrow>
               (if is_primitive ob then (Inl TypeError, s)
                else (Inr (VUpd (length (upds s))),
                      s\<lparr>mgr_valid := False,
                        upds := upds s @ [new_updatableState onInv ob call],
                        cache := cache s @ [((ob, call), length (upds s))]\<rparr>))))"

text \<open>The closure of lines 120-126 for the state \<open>u\<close>, on the table of proxy \<open>p\<close> under \<open>k\<close>.\<close>

definition uninit_entry :: "nat \<Rightarrow> state \<Rightarrow> nat \<times> nat \<times> key \<Rightarrow> state" where
  "uninit_entry u s ent =
     (case ent of (ds, p, k) \<Rightarrow>
        (case get_proxy s p of
           None \<Rightarrow> s
         | Some px \<Rightarrow>
             (case map_of (toUpdate px) k of
                None \<Rightarrow> s
              | Some ups \<Rightarrow>
                  (let ups' = ups\<lparr>updatableStates := jsset_delete u (updatableStates ups),
                                  updatableStateMap := jsmap_delete u (updatableStateMap ups)\<rparr>
                   in map_proxy (\<lambda>x. x\<lparr>toUpdate :=
                          (if updatableStates ups' = [] then jsmap_delete k (toUpdate x)
                           else jsmap_set k ups' (toUpdate x))\<rparr>) p s))))"

text \<open>Lines 337-338: run every uninit closure, then clear the map.\<close>

definition run_uninit :: "state \<Rightarrow> nat \<Rightarrow> state" where
  "run_uninit s u =
     (case get_upd s u of
        None \<Rightarrow> s
      | Some st \<Rightarrow> map_upd (\<lambda>x. x\<lparr>u_uninit := []\<rparr>) u (foldl (uninit_entry u) s (u_uninit st)))"

subsection \<open>registerRead: the subscription\<close>

text \<open>
  Lines 105-126: join the subscription list of \<^verbatim>\<open>currentKey\<close>, creating the list and the
  metadata when missing, and leave the uninit closure under the data source. The closure
  replaces the one an earlier read of another key of the same source left there.
\<close>

definition subscribe :: "state \<Rightarrow> nat \<Rightarrow> nat \<Rightarrow> key \<Rightarrow> state" where
  "subscribe s p u ck =
     (case get_proxy s p of
        None \<Rightarrow> s
      | Some px \<Rightarrow>
          (let ups0 = (case map_of (toUpdate px) ck of
                         Some x \<Rightarrow> x
                       | None \<Rightarrow> \<lparr>updatableStates = [], updatableStateMap = []\<rparr>);
               ups1 = ups0\<lparr>updatableStates := jsset_add u (updatableStates ups0)\<rparr>;
               ups2 = (case map_of (updatableStateMap ups1) u of
                         Some e \<Rightarrow> ups1
                       | None \<Rightarrow> ups1\<lparr>updatableStateMap := updatableStateMap ups1
                                     @ [(u, \<lparr>ex_root = False, ex_prototypes = None\<rparr>)]\<rparr>)
           in map_upd (\<lambda>x. x\<lparr>u_uninit := jsmap_set (p_target px) (p, ck) (u_uninit x)\<rparr>) u
                (map_proxy (\<lambda>x. x\<lparr>toUpdate := jsmap_set ck ups2 (toUpdate x)\<rparr>) p s)))"

text \<open>The metadata \<^verbatim>\<open>updatableStateEx\<close> of \<open>u\<close> under \<open>ck\<close> on proxy \<open>p\<close>, and an update of it.\<close>

definition get_ex :: "state \<Rightarrow> nat \<Rightarrow> key \<Rightarrow> nat \<Rightarrow> ex option" where
  "get_ex s p ck u =
     (case get_proxy s p of
        None \<Rightarrow> None
      | Some px \<Rightarrow>
          (case map_of (toUpdate px) ck of
             None \<Rightarrow> None
           | Some ups \<Rightarrow> map_of (updatableStateMap ups) u))"

definition map_ex :: "(ex \<Rightarrow> ex) \<Rightarrow> nat \<Rightarrow> key \<Rightarrow> nat \<Rightarrow> state \<Rightarrow> state" where
  "map_ex f p ck u s =
     map_proxy (\<lambda>x. x\<lparr>toUpdate :=
        map (\<lambda>(k, ups). if k = ck
               then (k, ups\<lparr>updatableStateMap :=
                       map (\<lambda>(w, e). if w = u then (w, f e) else (w, e)) (updatableStateMap ups)\<rparr>)
               else (k, ups)) (toUpdate x)\<rparr>) p s"

text \<open>
  Lines 127-146 and 165-167 of \<^verbatim>\<open>registerRead\<close>, after the subscription: mark the metadata
  as root, or record the vector \<^verbatim>\<open>prototypes\<close> under its last entry. The answer is the
  address of the vector when the walk up the prototype chain (lines 147-163) is to follow,
  and \<open>None\<close> when \<^verbatim>\<open>registerRead\<close> returns here.
\<close>

definition registerRead_meta ::
  "state \<Rightarrow> nat \<Rightarrow> nat \<Rightarrow> key \<Rightarrow> nat option \<Rightarrow> (error + nat option) \<times> state" where
  "registerRead_meta s p u ck protos =
     (case get_proxy s p of
        None \<Rightarrow> (Inl Unmodelled, s)
      | Some px \<Rightarrow>
          (if prototypes (opts s) then
             (case protos of
                None \<Rightarrow>
                  (Inr (Some (length (arrays s))),
                   map_ex (\<lambda>e. e\<lparr>ex_root := True\<rparr>) p ck u
                     (s\<lparr>arrays := arrays s @ [[PObj (p_target px)]]\<rparr>))
              | Some arr \<Rightarrow>
                  (case nth_opt (arrays s) arr of
                     None \<Rightarrow> (Inl Unmodelled, s)
                   | Some vec \<Rightarrow>
                       (if vec = [] then (Inl Unmodelled, s)
                        else
                          (case get_ex s p ck u of
                             None \<Rightarrow> (Inl TypeError, s)
                           | Some e \<Rightarrow>
                               (let m = (case ex_prototypes e of None \<Rightarrow> [] | Some m \<Rightarrow> m) in
                                case map_of m (last vec) of
                                  Some old \<Rightarrow>
                                    (Inr None, map_ex (\<lambda>e. e\<lparr>ex_prototypes := Some m\<rparr>) p ck u s)
                                | None \<Rightarrow>
                                    (Inr (Some arr),
                                     map_ex (\<lambda>e. e\<lparr>ex_prototypes :=
                                               Some (jsmap_set (last vec) arr m)\<rparr>) p ck u s))))))
           else (Inr None, map_ex (\<lambda>e. e\<lparr>ex_root := True\<rparr>) p ck u s)))"

subsection \<open>Values of the built-in kinds\<close>

text \<open>
  A property read on a primitive, a function or the manager. Only what the manager itself
  reads there is modelled: \<^verbatim>\<open>constructor\<close> and the two symbols, which none of them has.
\<close>

definition prim_get :: "val \<Rightarrow> key \<Rightarrow> error + val" where
  "prim_get v k =
     (case k of
        KStr n \<Rightarrow>
          (if n = ''constructor'' then
             Inr (case v of
                    VBool _ \<Rightarrow> VBuiltin ''Boolean''
                  | VNum _ \<Rightarrow> VBuiltin ''Number''
                  | VNaN \<Rightarrow> VBuiltin ''Number''
                  | VStr _ \<Rightarrow> VBuiltin ''String''
                  | VManager \<Rightarrow> VBuiltin ''Manager''
                  | _ \<Rightarrow> VBuiltin ''Function'')
           else Inl Unmodelled)
      | KIdx i \<Rightarrow> Inl Unmodelled
      | _ \<Rightarrow> Inr VUndef)"

text \<open>\<^verbatim>\<open>a + b\<close> on two numbers or two strings. A sum of integers is exact, as the sum of
  the doubles is, up to the magnitude \<open>2^53\<close>.\<close>

definition js_plus :: "val \<Rightarrow> val \<Rightarrow> error + val" where
  "js_plus x y =
     (case (x, y) of
        (VNum a, VNum b) \<Rightarrow>
          (if \<bar>a\<bar> \<le> 9007199254740992 \<and> \<bar>b\<bar> \<le> 9007199254740992 \<and> \<bar>a + b\<bar> \<le> 9007199254740992
           then Inr (VNum (a + b)) else Inl Unmodelled)
      | (VStr a, VStr b) \<Rightarrow> Inr (VStr (a @ b))
      | (VNaN, VNum b) \<Rightarrow> Inr VNaN
      | (VNum a, VNaN) \<Rightarrow> Inr VNaN
      | (VNaN, VNaN) \<Rightarrow> Inr VNaN
      | _ \<Rightarrow> Inl Unmodelled)"

definition cross_reference_warning :: string where
  "cross_reference_warning =
     ''Detected cross reference inside computed properties!''
     @ '' '' @ [CHR 0x22] @ ''undefined'' @ [CHR 0x22]
     @ '' will be returned to prevent infinite loop''"

subsection \<open>Running the code: results with fuel\<close>

text \<open>
  User functions may loop through the traps without end, so every call below spends one unit
  of fuel. \<open>None\<close> is the answer of a run that was given too little.
\<close>

type_synonym res = "result option"

definition ok :: "val \<Rightarrow> state \<Rightarrow> res" where
  "ok v s = Some (Inr v, s)"

definition throw :: "error \<Rightarrow> state \<Rightarrow> res" where
  "throw e s = Some (Inl e, s)"

definition bnd :: "res \<Rightarrow> (val \<Rightarrow> state \<Rightarrow> res) \<Rightarrow> res" where
  "bnd m f = (case m of
                None \<Rightarrow> None
              | Some (Inl e, s) \<Rightarrow> Some (Inl e, s)
              | Some (Inr v, s) \<Rightarrow> f v s)"

text \<open>\<^verbatim>\<open>try { m } finally { f }\<close>.\<close>

definition try_finally :: "res \<Rightarrow> (state \<Rightarrow> state) \<Rightarrow> res" where
  "try_finally m f = (case m of None \<Rightarrow> None | Some (r, s) \<Rightarrow> Some (r, f s))"

text \<open>The context of line 342-348: \<^verbatim>\<open>manager.observables.get(this)\<close> for a truthy \<^verbatim>\<open>this\<close>,
  the manager otherwise. The map is keyed by source objects only.\<close>

definition call_context :: "state \<Rightarrow> val \<Rightarrow> val" where
  "call_context s th =
     (if truthy th then
        (case th of
           VObj a \<Rightarrow> (case map_of (observables s) a of Some p \<Rightarrow> VProxy p | None \<Rightarrow> VUndef)
         | _ \<Rightarrow> VUndef)
      else VManager)"

definition new_proxy :: "nat \<Rightarrow> proxy" where
  "new_proxy a = \<lparr> p_target = a, toUpdate = [], watchDeepSection = False \<rparr>"

text \<open>
  What the engine does with the answer \<open>r\<close> of a trap of proxy \<open>p\<close> for the key \<open>k\<close>, before
  the operation on the proxy returns (the invariants of \<^verbatim>\<open>[[Get]]\<close>, \<^verbatim>\<open>[[Set]]\<close> and \<^verbatim>\<open>[[Delete]]\<close>
  of a proxy). A falsy answer to a store or a delete throws in strict code, and modules are
  strict. A trap may not report a key deleted that the target owns as a property that is not
  configurable, nor report a store to an accessor without setter that is not configurable,
  nor a value for one without getter. Whether a data property that is not configurable is
  read-only the embedding does not know; only a report that changes nothing is known to pass.
\<close>

definition target_of :: "state \<Rightarrow> nat \<Rightarrow> obj option" where
  "target_of s p = (case get_proxy s p of None \<Rightarrow> None | Some px \<Rightarrow> get_obj s (p_target px))"

definition get_checked :: "state \<Rightarrow> nat \<Rightarrow> key \<Rightarrow> val \<Rightarrow> res" where
  "get_checked s p k r =
     (case target_of s p of
        None \<Rightarrow> throw Unmodelled s
      | Some ob \<Rightarrow>
          (if nonconfigurable ob k then
             (case map_of (o_props ob) k of
                Some (Accessor g st) \<Rightarrow> (if g = VUndef \<and> r \<noteq> VUndef then throw TypeError s else ok r s)
              | Some (Data v) \<Rightarrow> (if k \<in> set (o_fixed ob) \<and> r \<noteq> v then throw Unmodelled s else ok r s)
              | None \<Rightarrow> ok r s)
           else ok r s))"

definition set_checked :: "state \<Rightarrow> nat \<Rightarrow> key \<Rightarrow> val \<Rightarrow> res" where
  "set_checked s p k r =
     (if \<not> truthy r then throw TypeError s
      else
        (case target_of s p of
           None \<Rightarrow> throw Unmodelled s
         | Some ob \<Rightarrow>
             (if nonconfigurable ob k then
                (case map_of (o_props ob) k of
                   Some (Accessor g st) \<Rightarrow> (if st = VUndef then throw TypeError s else ok r s)
                 | _ \<Rightarrow> ok r s)
              else ok r s)))"

definition delete_checked :: "state \<Rightarrow> nat \<Rightarrow> key \<Rightarrow> val \<Rightarrow> res" where
  "delete_checked s p k r =
     (if \<not> truthy r then throw TypeError s
      else
        (case target_of s p of
           None \<Rightarrow> throw Unmodelled s
         | Some ob \<Rightarrow> (if nonconfigurable ob k then throw TypeError s else ok r s)))"

subsection \<open>The traps, the updatable function and the scheduler\<close>

text \<open>
  The functions of the source call each other, and through the user functions they call
  themselves. A \<open>call\<close> names one invocation with its arguments; the body of each function
  is a definition of its own that reaches every callee through \<open>rec\<close>, and \<open>exec\<close> ties the
  knot with one unit of fuel per call.
  \<^item> \<open>C_eval th ar e\<close> runs the body \<open>e\<close> of a user function with receiver \<open>th\<close> and first
    argument \<open>ar\<close>; \<open>C_getV\<close>, \<open>C_setV\<close> and \<open>C_delV\<close> are \<^verbatim>\<open>v[key]\<close>, \<^verbatim>\<open>v[key] = w\<close> and
    \<^verbatim>\<open>delete v[key]\<close> on any value, through the traps when \<open>v\<close> is a proxy.
  \<^item> \<open>C_raw_get\<close> and \<open>C_raw_set\<close> are \<^verbatim>\<open>obj[key]\<close> and \<^verbatim>\<open>obj[key] = val\<close> on a source object:
    an accessor found on the prototype chain runs its getter or setter, and an assignment
    to an accessor without setter throws (the source is a module, hence strict code).
  \<^item> \<open>C_call_fn f th ar\<close> is \<^verbatim>\<open>f.call(th, ar)\<close>.
  \<^item> \<open>C_updatableFunction\<close> is the closure of lines 318-360.
  \<^item> \<open>C_get_trap\<close> (with \<open>C_get_trap_read\<close>, its lines 238-260), \<open>C_set_trap\<close> and
    \<open>C_deleteProperty_trap\<close> are the handlers of lines 216-275; the receiver of a read is the
    proxy itself (no proxy stands in a prototype chain).
  \<^item> \<open>C_registerRead\<close> is lines 88-168, with \<open>C_watchDeep_keys\<close> its
    \<^verbatim>\<open>Object.keys(...).forEach\<close>, \<open>C_registerRead_subscribe\<close> its lines 105-167 and
    \<open>C_registerRead_walk\<close> its \<^verbatim>\<open>while\<close> loop.
  \<^item> \<open>C_updateProperty\<close> is lines 170-213; \<open>C_run\<close>, \<open>C_run_loop\<close> (the \<^verbatim>\<open>while\<close> of lines
    441-451), \<open>C_run_reactions\<close> (the \<^verbatim>\<open>forEach\<close> of lines 447-450) and \<open>C_runDeferred\<close> are
    lines 430-483.
  \<^item> \<open>C_makeObservable\<close> is lines 48-280 and \<open>C_isObservable\<close> lines 419-421.
  The checks that the JavaScript engine makes on what a trap reports (the invariants of
  \<^verbatim>\<open>Proxy\<close> for non-configurable properties) are not part of the handlers and not modelled.
\<close>

datatype call =
    C_eval val val expr
  | C_getV val key
  | C_setV val key val
  | C_delV val key
  | C_raw_get nat key
  | C_raw_set nat key val
  | C_call_fn val val val
  | C_updatableFunction nat val
  | C_get_trap nat key
  | C_get_trap_read nat key
  | C_registerRead nat nat key "nat option"
  | C_watchDeep_keys nat "key list"
  | C_registerRead_subscribe nat nat key key "nat option"
  | C_registerRead_walk nat key nat proto
  | C_set_trap nat key val
  | C_deleteProperty_trap nat key
  | C_updateProperty nat key
  | C_run val
  | C_run_loop nat
  | C_run_reactions "nat list"
  | C_runDeferred val
  | C_makeObservable val
  | C_isObservable val

type_synonym rec = "state \<Rightarrow> call \<Rightarrow> res"

definition eval_body :: "rec \<Rightarrow> state \<Rightarrow> val \<Rightarrow> val \<Rightarrow> expr \<Rightarrow> res" where
  "eval_body rec s th ar e =
     (case e of
        Lit v \<Rightarrow> ok v s
      | This \<Rightarrow> ok th s
      | Arg \<Rightarrow> ok ar s
      | Get e1 k \<Rightarrow> bnd (rec s (C_eval th ar e1)) (\<lambda>v s1. rec s1 (C_getV v k))
      | Set e1 k e2 \<Rightarrow>
          bnd (rec s (C_eval th ar e1)) (\<lambda>v s1.
          bnd (rec s1 (C_eval th ar e2)) (\<lambda>w s2.
          bnd (rec s2 (C_setV v k w)) (\<lambda>_ s3. ok w s3)))
      | Del e1 k \<Rightarrow> bnd (rec s (C_eval th ar e1)) (\<lambda>v s1. rec s1 (C_delV v k))
      | Plus e1 e2 \<Rightarrow>
          bnd (rec s (C_eval th ar e1)) (\<lambda>x s1.
          bnd (rec s1 (C_eval th ar e2)) (\<lambda>y s2. Some (js_plus x y, s2)))
      | Seq e1 e2 \<Rightarrow> bnd (rec s (C_eval th ar e1)) (\<lambda>_ s1. rec s1 (C_eval th ar e2))
      | Cond e0 e1 e2 \<Rightarrow>
          bnd (rec s (C_eval th ar e0)) (\<lambda>c s1.
            if truthy c then rec s1 (C_eval th ar e1) else rec s1 (C_eval th ar e2)))"

definition getV_body :: "rec \<Rightarrow> state \<Rightarrow> val \<Rightarrow> key \<Rightarrow> res" where
  "getV_body rec s v k =
     (case v of
        VProxy p \<Rightarrow> bnd (rec s (C_get_trap p k)) (\<lambda>r s1. get_checked s1 p k r)
      | VObj a \<Rightarrow> rec s (C_raw_get a k)
      | VUndef \<Rightarrow> throw TypeError s
      | VNull \<Rightarrow> throw TypeError s
      | _ \<Rightarrow> Some (prim_get v k, s))"

definition setV_body :: "rec \<Rightarrow> state \<Rightarrow> val \<Rightarrow> key \<Rightarrow> val \<Rightarrow> res" where
  "setV_body rec s v k w =
     (case v of
        VProxy p \<Rightarrow>
          bnd (rec s (C_set_trap p k w)) (\<lambda>r s1.
          bnd (set_checked s1 p k r) (\<lambda>_ s2. ok w s2))
      | VObj a \<Rightarrow> rec s (C_raw_set a k w)
      | VUndef \<Rightarrow> throw TypeError s
      | VNull \<Rightarrow> throw TypeError s
      | _ \<Rightarrow> throw Unmodelled s)"

definition delV_body :: "rec \<Rightarrow> state \<Rightarrow> val \<Rightarrow> key \<Rightarrow> res" where
  "delV_body rec s v k =
     (case v of
        VProxy p \<Rightarrow> bnd (rec s (C_deleteProperty_trap p k)) (\<lambda>r s1. delete_checked s1 p k r)
      | VObj a \<Rightarrow>
          (case get_obj s a of
             None \<Rightarrow> throw Unmodelled s
           | Some ob \<Rightarrow>
               (if nonconfigurable ob k then throw TypeError s
                else ok (VBool True) (map_obj (\<lambda>x. x\<lparr>o_props := jsmap_delete k (o_props x)\<rparr>) a s)))
      | VUndef \<Rightarrow> throw TypeError s
      | VNull \<Rightarrow> throw TypeError s
      | _ \<Rightarrow> throw Unmodelled s)"

definition raw_get_body :: "rec \<Rightarrow> state \<Rightarrow> nat \<Rightarrow> key \<Rightarrow> res" where
  "raw_get_body rec s a k =
     (case find_prop s a k of
        Found (Data v) \<Rightarrow> ok v s
      | Found (Accessor g st) \<Rightarrow>
          (if g = VUndef then ok VUndef s else rec s (C_call_fn g (VObj a) VUndef))
      | AtEnd bp \<Rightarrow> (case builtin_get bp k of None \<Rightarrow> throw Unmodelled s | Some v \<Rightarrow> ok v s)
      | Broken \<Rightarrow> throw Unmodelled s)"

definition raw_set_body :: "rec \<Rightarrow> state \<Rightarrow> nat \<Rightarrow> key \<Rightarrow> val \<Rightarrow> res" where
  "raw_set_body rec s a k w =
     (case find_prop s a k of
        Found (Accessor g st) \<Rightarrow>
          (if st = VUndef then throw TypeError s
           else bnd (rec s (C_call_fn st (VObj a) w)) (\<lambda>_ s1. ok w s1))
      | Broken \<Rightarrow> throw Unmodelled s
      | AtEnd bp \<Rightarrow>
          (case builtin_get bp k of
             None \<Rightarrow> throw Unmodelled s
           | Some v \<Rightarrow> (case define_own s a k w of Inl e \<Rightarrow> throw e s | Inr s1 \<Rightarrow> ok w s1))
      | Found (Data v) \<Rightarrow> (case define_own s a k w of Inl e \<Rightarrow> throw e s | Inr s1 \<Rightarrow> ok w s1))"

definition call_fn_body :: "rec \<Rightarrow> state \<Rightarrow> val \<Rightarrow> val \<Rightarrow> val \<Rightarrow> res" where
  "call_fn_body rec s f th ar =
     (case f of
        VFun i \<Rightarrow>
          (case nth_opt (funs s) i of
             None \<Rightarrow> throw Unmodelled s
           | Some body \<Rightarrow> rec s (C_eval th ar body))
      | VUpd u \<Rightarrow> rec s (C_updatableFunction u th)
      | VBuiltin b \<Rightarrow> throw Unmodelled s
      | VRegisterRead q \<Rightarrow> throw Unmodelled s
      | _ \<Rightarrow> throw TypeError s)"

definition updatableFunction_body :: "rec \<Rightarrow> state \<Rightarrow> nat \<Rightarrow> val \<Rightarrow> res" where
  "updatableFunction_body rec s u th =
     (case get_upd s u of
        None \<Rightarrow> throw Unmodelled s
      | Some st \<Rightarrow>
          (if u_computing st
           then ok VUndef (s\<lparr>warnings := warnings s @ [cross_reference_warning]\<rparr>)
           else
             (let s1 = (if callStack s \<noteq> []
                        then map_upd (\<lambda>x. x\<lparr>u_deps := jsset_add (last (callStack s)) (u_deps x)\<rparr>) u s
                        else s)
              in if u_valid st then ok (u_value st) s1
                 else
                   (let s2 = map_upd (\<lambda>x. x\<lparr>u_computing := True\<rparr>) u s1;
                        s3 = run_uninit s2 u;
                        s4 = s3\<lparr>callStack := callStack s3 @ [u]\<rparr>
                    in try_finally
                         (let ctx = call_context s4 th;
                              s5 = map_upd (\<lambda>x. x\<lparr>u_invalidIteration := False\<rparr>) u s4;
                              s6 = (if typeof_function (u_call st)
                                    then s5\<lparr>calls := calls s5 @ [(u, ctx)]\<rparr> else s5)
                          in bnd (rec s6 (C_call_fn (u_call st) ctx ctx)) (\<lambda>v s7.
                               ok v (map_upd (\<lambda>x. x\<lparr>u_valid := \<not> u_invalidIteration x,
                                                     u_value := v\<rparr>) u s7)))
                         (\<lambda>sf. (map_upd (\<lambda>x. x\<lparr>u_computing := False\<rparr>) u sf)
                                  \<lparr>callStack := butlast (callStack sf)\<rparr>)))))"

definition get_trap_body :: "rec \<Rightarrow> state \<Rightarrow> nat \<Rightarrow> key \<Rightarrow> res" where
  "get_trap_body rec s p k =
     (case get_proxy s p of
        None \<Rightarrow> throw Unmodelled s
      | Some px \<Rightarrow>
          (if k = SymIsObservable then ok (VBool True) s
           else if k = dataSourceKey (opts s) then ok (VObj (p_target px)) s
           else
             (case getOwnPropertyDescriptor s (p_target px) k of
                Some (Accessor g st) \<Rightarrow>
                  (if typeof_function g
                   then bnd (Some (makeUpdatable s g (VObj (p_target px)) NoHook)) (\<lambda>uf s1.
                          rec s1 (C_call_fn uf (VObj (p_target px)) VUndef))
                   else rec s (C_get_trap_read p k))
              | _ \<Rightarrow> rec s (C_get_trap_read p k))))"

definition get_trap_value :: "rec \<Rightarrow> state \<Rightarrow> nat \<Rightarrow> nat \<Rightarrow> key \<Rightarrow> res" where
  "get_trap_value rec s p a k =
     (if k = watchKey (opts s) \<or> k = watchDeepKey (opts s) then ok (VProxy p) s
      else bnd (rec s (C_raw_get a k)) (\<lambda>v s1.
             if typeof_object v then rec s1 (C_makeObservable v) else ok v s1))"

definition get_trap_read_body :: "rec \<Rightarrow> state \<Rightarrow> nat \<Rightarrow> key \<Rightarrow> res" where
  "get_trap_read_body rec s p k =
     (case get_proxy s p of
        None \<Rightarrow> throw Unmodelled s
      | Some px \<Rightarrow>
          (if callStack s \<noteq> [] then
             (if k = SymRegisterRead then ok (VRegisterRead p) s
              else bnd (rec s (C_registerRead p (last (callStack s)) k None)) (\<lambda>_ s1.
                     get_trap_value rec s1 p (p_target px) k))
           else get_trap_value rec s p (p_target px) k))"

definition registerRead_body ::
  "rec \<Rightarrow> state \<Rightarrow> nat \<Rightarrow> nat \<Rightarrow> key \<Rightarrow> nat option \<Rightarrow> res" where
  "registerRead_body rec s p u k protos =
     (case get_proxy s p of
        None \<Rightarrow> throw Unmodelled s
      | Some px \<Rightarrow>
          (if k = watchDeepKey (opts s) then
             (if watchDeepSection px then ok VUndef s
              else
                (case get_obj s (p_target px) of
                   None \<Rightarrow> throw Unmodelled s
                 | Some ob \<Rightarrow>
                     bnd (rec (map_proxy (\<lambda>x. x\<lparr>watchDeepSection := True\<rparr>) p s)
                            (C_watchDeep_keys (p_target px) (object_keys ob))) (\<lambda>_ s1.
                       rec (map_proxy (\<lambda>x. x\<lparr>watchDeepSection := False\<rparr>) p s1)
                         (C_registerRead_subscribe p u k (watchKey (opts s1)) protos))))
           else rec s (C_registerRead_subscribe p u k k protos)))"

definition watchDeep_keys_body :: "rec \<Rightarrow> state \<Rightarrow> nat \<Rightarrow> key list \<Rightarrow> res" where
  "watchDeep_keys_body rec s a ks =
     (case ks of
        [] \<Rightarrow> ok VUndef s
      | k # rest \<Rightarrow>
          bnd (rec s (C_raw_get a k)) (\<lambda>v s1.
            if typeof_object v then
              bnd (rec s1 (C_raw_get a k)) (\<lambda>v2 s2.
              bnd (rec s2 (C_makeObservable v2)) (\<lambda>obs s3.
              bnd (rec s3 (C_getV obs (watchDeepKey (opts s3)))) (\<lambda>_ s4.
                rec s4 (C_watchDeep_keys a rest))))
            else rec s1 (C_watchDeep_keys a rest)))"

definition registerRead_subscribe_body ::
  "rec \<Rightarrow> state \<Rightarrow> nat \<Rightarrow> nat \<Rightarrow> key \<Rightarrow> key \<Rightarrow> nat option \<Rightarrow> res" where
  "registerRead_subscribe_body rec s p u k ck protos =
     (case registerRead_meta (subscribe s p u ck) p u ck protos of
        (Inl e, s1) \<Rightarrow> throw e s1
      | (Inr None, s1) \<Rightarrow> ok VUndef s1
      | (Inr (Some arr), s1) \<Rightarrow>
          (case get_proxy s1 p of
             None \<Rightarrow> throw Unmodelled s1
           | Some px \<Rightarrow>
               (case get_obj s1 (p_target px) of
                  None \<Rightarrow> throw Unmodelled s1
                | Some ob \<Rightarrow> rec s1 (C_registerRead_walk u k arr (o_proto ob)))))"

definition unshift :: "nat \<Rightarrow> proto \<Rightarrow> state \<Rightarrow> state" where
  "unshift arr e s = s\<lparr>arrays := (arrays s)[arr := e # (arrays s ! arr)]\<rparr>"

definition registerRead_walk_body ::
  "rec \<Rightarrow> state \<Rightarrow> nat \<Rightarrow> key \<Rightarrow> nat \<Rightarrow> proto \<Rightarrow> res" where
  "registerRead_walk_body rec s u k arr pr =
     (case pr of
        PNull \<Rightarrow> ok VUndef s
      | PObject \<Rightarrow> ok VUndef s
      | PObj a \<Rightarrow>
          (case get_obj s a of
             None \<Rightarrow> throw Unmodelled s
           | Some ob \<Rightarrow>
               (case map_of (observables s) a of
                  Some q \<Rightarrow>
                    bnd (rec (unshift arr pr s) (C_getV (VProxy q) SymRegisterRead)) (\<lambda>f s2.
                      case f of
                        VRegisterRead q' \<Rightarrow>
                          bnd (rec s2 (C_registerRead q' u k (Some arr))) (\<lambda>_ s3. ok VUndef s3)
                      | _ \<Rightarrow> throw TypeError s2)
                | None \<Rightarrow> rec (unshift arr pr s) (C_registerRead_walk u k arr (o_proto ob))))
      | _ \<Rightarrow> ok VUndef (unshift arr pr s))"

definition set_trap_body :: "rec \<Rightarrow> state \<Rightarrow> nat \<Rightarrow> key \<Rightarrow> val \<Rightarrow> res" where
  "set_trap_body rec s p k w =
     (case get_proxy s p of
        None \<Rightarrow> throw Unmodelled s
      | Some px \<Rightarrow>
          bnd (rec s (C_raw_get (p_target px) k)) (\<lambda>cur s1.
            case get_obj s1 (p_target px) of
              None \<Rightarrow> throw Unmodelled s1
            | Some ob \<Rightarrow>
                (if \<not> strict_eq w cur \<or> (o_isArray ob \<and> k = KStr ''length'') then
                   bnd (rec s1 (C_raw_set (p_target px) k w)) (\<lambda>_ s2.
                   bnd (rec s2 (C_updateProperty p k)) (\<lambda>_ s3. ok (VBool True) s3))
                 else ok (VBool True) s1)))"

definition deleteProperty_trap_body :: "rec \<Rightarrow> state \<Rightarrow> nat \<Rightarrow> key \<Rightarrow> res" where
  "deleteProperty_trap_body rec s p k =
     bnd (rec s (C_updateProperty p k)) (\<lambda>_ s1. ok (VBool True) s1)"

definition updateProperty_body :: "rec \<Rightarrow> state \<Rightarrow> nat \<Rightarrow> key \<Rightarrow> res" where
  "updateProperty_body rec s p k =
     bnd (Some (updateProperty_invalidate s p k)) (\<lambda>_ s1.
       if \<not> inRunSection s1 then
         (if immediateReaction (opts s1) then rec s1 (C_run VUndef) else rec s1 (C_runDeferred VUndef))
       else ok VUndef s1)"

definition run_body :: "rec \<Rightarrow> state \<Rightarrow> val \<Rightarrow> res" where
  "run_body rec s action =
     (if \<not> enabled (opts s) then ok VUndef s
      else try_finally
             (bnd (if typeof_function action
                   then rec (s\<lparr>inRunSection := True\<rparr>) (C_call_fn action VUndef VUndef)
                   else ok VUndef (s\<lparr>inRunSection := True\<rparr>)) (\<lambda>_ s1.
              bnd (rec (s1\<lparr>runScheduled := False\<rparr>) (C_run_loop 0)) (\<lambda>_ s2.
                if typeof_function (onAfterRun s2)
                then rec s2 (C_call_fn (onAfterRun s2) VManager VUndef)
                else ok VUndef s2)))
             (\<lambda>sf. sf\<lparr>inRunSection := False\<rparr>))"

definition run_loop_body :: "rec \<Rightarrow> state \<Rightarrow> nat \<Rightarrow> res" where
  "run_loop_body rec s iterations =
     (if \<not> mgr_valid s then
        (if iterations > maxIterations then throw IterationLimit (s\<lparr>mgr_valid := True\<rparr>)
         else bnd (rec (s\<lparr>mgr_valid := True\<rparr>) (C_run_reactions (reactionsToUpdate s))) (\<lambda>_ s1.
                rec s1 (C_run_loop (iterations + 1))))
      else ok VUndef s)"

definition run_reactions_body :: "rec \<Rightarrow> state \<Rightarrow> nat list \<Rightarrow> res" where
  "run_reactions_body rec s us =
     (case us of
        [] \<Rightarrow> ok VUndef s
      | u # rest \<Rightarrow>
          bnd (rec (s\<lparr>reactionsToUpdate := jsset_delete u (reactionsToUpdate s)\<rparr>)
                 (C_call_fn (VUpd u) VUndef VUndef)) (\<lambda>_ s1.
            rec s1 (C_run_reactions rest)))"

definition runDeferred_body :: "rec \<Rightarrow> state \<Rightarrow> val \<Rightarrow> res" where
  "runDeferred_body rec s action =
     (if \<not> enabled (opts s) then ok VUndef s
      else try_finally
             (let s0 = s\<lparr>inRunSection := True\<rparr>;
                  s1 = (if \<not> runScheduled s0
                        then s0\<lparr>runScheduled := True, timers := timers s0 + 1\<rparr> else s0)
              in if typeof_function action then rec s1 (C_call_fn action VUndef VUndef)
                 else ok VUndef s1)
             (\<lambda>sf. sf\<lparr>inRunSection := False\<rparr>))"

definition makeObservable_body :: "rec \<Rightarrow> state \<Rightarrow> val \<Rightarrow> res" where
  "makeObservable_body rec s v =
     (if \<not> truthy v then ok v s
      else
        bnd (rec s (C_getV v (KStr ''constructor''))) (\<lambda>c s1.
          if \<not> strict_eq c (VBuiltin ''Object'') \<and> \<not> strict_eq c (VBuiltin ''Array'')
          then ok v s1
          else
            bnd (rec s1 (C_isObservable v)) (\<lambda>b s2.
              if b = VBool True then ok v s2
              else
                (case v of
                   VObj a \<Rightarrow>
                     (case map_of (observables s2) a of
                        Some p \<Rightarrow> ok (VProxy p) s2
                      | None \<Rightarrow>
                          ok (VProxy (length (proxies s2)))
                             (s2\<lparr>proxies := proxies s2 @ [new_proxy a],
                                 observables := observables s2 @ [(a, length (proxies s2))]\<rparr>))
                 | _ \<Rightarrow> throw Unmodelled s2))))"

definition isObservable_body :: "rec \<Rightarrow> state \<Rightarrow> val \<Rightarrow> res" where
  "isObservable_body rec s v =
     bnd (rec s (C_getV v SymIsObservable)) (\<lambda>r s1. ok (VBool (strict_eq r (VBool True))) s1)"

definition step :: "rec \<Rightarrow> state \<Rightarrow> call \<Rightarrow> res" where
  "step rec s c =
     (case c of
        C_eval th ar e \<Rightarrow> eval_body rec s th ar e
      | C_getV v k \<Rightarrow> getV_body rec s v k
      | C_setV v k w \<Rightarrow> setV_body rec s v k w
      | C_delV v k \<Rightarrow> delV_body rec s v k
      | C_raw_get a k \<Rightarrow> raw_get_body rec s a k
      | C_raw_set a k w \<Rightarrow> raw_set_body rec s a k w
      | C_call_fn f th ar \<Rightarrow> call_fn_body rec s f th ar
      | C_updatableFunction u th \<Rightarrow> updatableFunction_body rec s u th
      | C_get_trap p k \<Rightarrow> get_trap_body rec s p k
      | C_get_trap_read p k \<Rightarrow> get_trap_read_body rec s p k
      | C_registerRead p u k protos \<Rightarrow> registerRead_body rec s p u k protos
      | C_watchDeep_keys a ks \<Rightarrow> watchDeep_keys_body rec s a ks
      | C_registerRead_subscribe p u k ck protos \<Rightarrow> registerRead_subscribe_body rec s p u k ck protos
      | C_registerRead_walk u k arr pr \<Rightarrow> registerRead_walk_body rec s u k arr pr
      | C_set_trap p k w \<Rightarrow> set_trap_body rec s p k w
      | C_deleteProperty_trap p k \<Rightarrow> deleteProperty_trap_body rec s p k
      | C_updateProperty p k \<Rightarrow> updateProperty_body rec s p k
      | C_run action \<Rightarrow> run_body rec s action
      | C_run_loop iterations \<Rightarrow> run_loop_body rec s iterations
      | C_run_reactions us \<Rightarrow> run_reactions_body rec s us
      | C_runDeferred action \<Rightarrow> runDeferred_body rec s action
      | C_makeObservable v \<Rightarrow> makeObservable_body rec s v
      | C_isObservable v \<Rightarrow> isObservable_body rec s v)"

primrec exec :: "nat \<Rightarrow> state \<Rightarrow> call \<Rightarrow> res" where
  "exec 0 = (\<lambda>s c. None)"
| "exec (Suc n) = step (exec n)"

subsection \<open>The functions of the manager by name\<close>

definition eval :: "nat \<Rightarrow> state \<Rightarrow> val \<Rightarrow> val \<Rightarrow> expr \<Rightarrow> res" where
  "eval n s th ar e = exec n s (C_eval th ar e)"

text \<open>The expressions \<^verbatim>\<open>v[k]\<close>, \<^verbatim>\<open>v[k] = w\<close> and \<^verbatim>\<open>delete v[k]\<close> of a caller.\<close>

definition getV :: "nat \<Rightarrow> state \<Rightarrow> val \<Rightarrow> key \<Rightarrow> res" where
  "getV n s v k = exec n s (C_getV v k)"

definition setV :: "nat \<Rightarrow> state \<Rightarrow> val \<Rightarrow> key \<Rightarrow> val \<Rightarrow> res" where
  "setV n s v k w = exec n s (C_setV v k w)"


definition get_trap :: "nat \<Rightarrow> state \<Rightarrow> nat \<Rightarrow> key \<Rightarrow> res" where
  "get_trap n s p k = exec n s (C_get_trap p k)"




definition updatableFunction :: "nat \<Rightarrow> state \<Rightarrow> nat \<Rightarrow> val \<Rightarrow> res" where
  "updatableFunction n s u th = exec n s (C_updatableFunction u th)"

definition run :: "nat \<Rightarrow> state \<Rightarrow> val \<Rightarrow> res" where
  "run n s action = exec n s (C_run action)"


definition makeObservable :: "nat \<Rightarrow> state \<Rightarrow> val \<Rightarrow> res" where
  "makeObservable n s v = exec n s (C_makeObservable v)"


text \<open>
  \<^verbatim>\<open>makeComputed(obj, key, callOnGet, callOnSet)\<close> (lines 374-380). \<^verbatim>\<open>Object.defineProperty\<close>
  on a proxy reaches its target, since the handler has no trap for it. The property it
  installs is not configurable; over a property that is not configurable it throws, unless
  it would change nothing. An accessor under an index of an array, or on an object that is
  no source object, is not modelled.
\<close>

definition makeComputed :: "state \<Rightarrow> val \<Rightarrow> key \<Rightarrow> val \<Rightarrow> val \<Rightarrow> result" where
  "makeComputed s ob k callOnGet callOnSet =
     (case makeUpdatable s callOnGet ob NoHook of
        (Inl e, s1) \<Rightarrow> (Inl e, s1)
      | (Inr uf, s1) \<Rightarrow>
          (if callOnSet \<noteq> VUndef \<and> \<not> typeof_function callOnSet then (Inl TypeError, s1)
           else if is_primitive ob then (Inl TypeError, s1)
           else
             (case (case ob of
                      VObj a \<Rightarrow> Some a
                    | VProxy p \<Rightarrow> map_option p_target (get_proxy s1 p)
                    | _ \<Rightarrow> None) of
                None \<Rightarrow> (Inl Unmodelled, s1)
              | Some a \<Rightarrow>
                  (case get_obj s1 a of
                     None \<Rightarrow> (Inl Unmodelled, s1)
                   | Some x \<Rightarrow>
                       (if nonconfigurable x k then
                          (if map_of (o_props x) k = Some (Accessor uf callOnSet)
                           then (Inr VUndef, s1) else (Inl TypeError, s1))
                        else if o_isArray x \<and> (case k of KIdx i \<Rightarrow> True | _ \<Rightarrow> False)
                        then (Inl Unmodelled, s1)
                        else
                          (Inr VUndef,
                           map_obj (\<lambda>x. x\<lparr>o_props := jsmap_set k (Accessor uf callOnSet) (o_props x),
                                          o_fixed := k # o_fixed x\<rparr>) a s1))))))"


text \<open>The callback \<^verbatim>\<open>() => this.run()\<close> that \<^verbatim>\<open>runDeferred\<close> queued, when the event loop runs it.\<close>

definition fire_timer :: "nat \<Rightarrow> state \<Rightarrow> res" where
  "fire_timer n s = (if timers s = 0 then ok VUndef s else run n (s\<lparr>timers := timers s - 1\<rparr>) VUndef)"

section \<open>Notions used to state the properties\<close>

subsection \<open>What an invalidation may change\<close>

text \<open>
  \<open>inval_rel s s'\<close>: \<open>s'\<close> differs from \<open>s\<close> as a run of \<^verbatim>\<open>invalidateDeps\<close> may make it differ.
  Only updatable states, \<^verbatim>\<open>manager.valid\<close>, \<^verbatim>\<open>reactionsToUpdate\<close> and the log of invalidations
  change; a state keeps everything but \<^verbatim>\<open>valid\<close>, \<^verbatim>\<open>deps\<close> and \<^verbatim>\<open>invalidIteration\<close>; no state
  becomes valid; and \<^verbatim>\<open>invalidIteration\<close> is set exactly for the states the log gained.
\<close>

definition upd_inv :: "upd \<Rightarrow> upd \<Rightarrow> bool" where
  "upd_inv x y =
     (u_onInvalidate y = u_onInvalidate x \<and> u_value y = u_value x \<and> u_uninit y = u_uninit x
      \<and> u_computing y = u_computing x \<and> u_obj y = u_obj x \<and> u_call y = u_call x
      \<and> (u_valid y \<longrightarrow> u_valid x))"

definition same_heap :: "state \<Rightarrow> state \<Rightarrow> bool" where
  "same_heap s s' =
     (objs s' = objs s \<and> proxies s' = proxies s \<and> arrays s' = arrays s \<and> funs s' = funs s
      \<and> observables s' = observables s \<and> cache s' = cache s \<and> opts s' = opts s
      \<and> callStack s' = callStack s \<and> inRunSection s' = inRunSection s
      \<and> runScheduled s' = runScheduled s \<and> timers s' = timers s
      \<and> onAfterRun s' = onAfterRun s \<and> warnings s' = warnings s \<and> calls s' = calls s)"

definition inval_rel :: "state \<Rightarrow> state \<Rightarrow> bool" where
  "inval_rel s s' =
     (same_heap s s'
      \<and> length (upds s') = length (upds s)
      \<and> prefix (invalidated s) (invalidated s')
      \<and> (\<forall>i < length (upds s). upd_inv (upds s ! i) (upds s' ! i)
            \<and> (u_invalidIteration (upds s' ! i) \<longleftrightarrow>
                 u_invalidIteration (upds s ! i)
                 \<or> count_list (invalidated s) i < count_list (invalidated s') i)))"

subsection \<open>The subscribers a write reaches\<close>



text \<open>
  \<open>readers s p ck\<close>: the members of the subscription list that proxy \<open>p\<close> holds under \<open>ck\<close>
  which are registered there as root, that is, which read the key on this very wrapper.
\<close>

definition readers :: "state \<Rightarrow> nat \<Rightarrow> key \<Rightarrow> nat list" where
  "readers s p ck =
     (case get_proxy s p of
        None \<Rightarrow> []
      | Some px \<Rightarrow>
          (case map_of (toUpdate px) ck of
             None \<Rightarrow> []
           | Some ups \<Rightarrow>
               filter (\<lambda>u. case map_of (updatableStateMap ups) u of
                             None \<Rightarrow> False | Some e \<Rightarrow> ex_root e)
                 (updatableStates ups)))"

subsection \<open>Reads and scheduling without user code\<close>






subsection \<open>The data of the unit tests\<close>

text \<open>
  The scenarios below run the manager on a heap in the manner of \<^verbatim>\<open>createTestData\<close> of
  test/unit-tests/index.js: object 0 is \<^verbatim>\<open>{a: 1, b: 2, flag: true, arr: []}\<close> and object 1 its
  array. The user functions are those of the tests and of the claims:
  \<^item> 0: \<^verbatim>\<open>self => self.a + self.b\<close>
  \<^item> 1: \<^verbatim>\<open>self => self.arr.length\<close>
  \<^item> 2: \<^verbatim>\<open>() => d.a = d.a + 2\<close>, with \<^verbatim>\<open>d\<close> the wrapper of object 0
  \<^item> 3: \<^verbatim>\<open>self => self.comp2\<close> and 4: \<^verbatim>\<open>self => self.comp1\<close>
  \<^item> 5: \<^verbatim>\<open>self => (self.a, self.a = 3)\<close>
  \<^item> 6: \<^verbatim>\<open>self => self.flag ? (self.a, self.b) : self.b\<close>
  \<^item> 7: \<^verbatim>\<open>self => self.a = 3\<close>
  \<^item> 8: \<^verbatim>\<open>() => d.a = 3\<close> and 9: \<^verbatim>\<open>() => (d.a, d.a = 3)\<close>
  \<^item> 10: \<^verbatim>\<open>function () { return this }\<close> and 11: \<^verbatim>\<open>self => self\<close>
  \<^item> 12: \<^verbatim>\<open>self => self.sum = 5\<close>
\<close>

definition plain :: "(key \<times> property) list \<Rightarrow> obj" where
  "plain ps = \<lparr> o_props = ps, o_proto = PObject, o_isArray = False, o_fixed = [] \<rparr>"

definition child_of :: "nat \<Rightarrow> (key \<times> property) list \<Rightarrow> obj" where
  "child_of a ps = \<lparr> o_props = ps, o_proto = PObj a, o_isArray = False, o_fixed = [] \<rparr>"

definition empty_array :: obj where
  "empty_array = \<lparr> o_props = [(KStr ''length'', Data (VNum 0))], o_proto = PArray, o_isArray = True,
     o_fixed = [] \<rparr>"

definition test_heap :: "obj list" where
  "test_heap =
     [plain [(KStr ''a'', Data (VNum 1)), (KStr ''b'', Data (VNum 2)),
             (KStr ''flag'', Data (VBool True)), (KStr ''arr'', Data (VObj 1))],
      empty_array]"

definition test_funs :: "expr list" where
  "test_funs =
     [Plus (Get Arg (KStr ''a'')) (Get Arg (KStr ''b'')),
      Get (Get Arg (KStr ''arr'')) (KStr ''length''),
      Set (Lit (VProxy 0)) (KStr ''a'') (Plus (Get (Lit (VProxy 0)) (KStr ''a'')) (Lit (VNum 2))),
      Get Arg (KStr ''comp2''),
      Get Arg (KStr ''comp1''),
      Seq (Get Arg (KStr ''a'')) (Set Arg (KStr ''a'') (Lit (VNum 3))),
      Cond (Get Arg (KStr ''flag'')) (Seq (Get Arg (KStr ''a'')) (Get Arg (KStr ''b'')))
           (Get Arg (KStr ''b'')),
      Set Arg (KStr ''a'') (Lit (VNum 3)),
      Set (Lit (VProxy 0)) (KStr ''a'') (Lit (VNum 3)),
      Seq (Get (Lit (VProxy 0)) (KStr ''a'')) (Set (Lit (VProxy 0)) (KStr ''a'') (Lit (VNum 3))),
      This,
      Arg,
      Set Arg (KStr ''sum'') (Lit (VNum 5))]"

definition the_state :: "res \<Rightarrow> state" where
  "the_state r = snd (the r)"

definition the_val :: "res \<Rightarrow> error + val" where
  "the_val r = fst (the r)"


text \<open>\<^verbatim>\<open>m = new Manager()\<close> over the data of the tests, and then
  \<^verbatim>\<open>d = m.makeObservable(createTestData())\<close>: \<open>d\<close> is proxy 0.\<close>

definition st_new :: state where
  "st_new = new_Manager default_options test_heap test_funs"

definition st_observed :: state where
  "st_observed = the_state (makeObservable 4 st_new (VObj 0))"

text \<open>\<^verbatim>\<open>m.makeComputed(d, "sum", self => self.a + self.b)\<close>, then the read \<^verbatim>\<open>d.sum\<close>.\<close>

definition st_sum :: state where
  "st_sum = snd (makeComputed st_observed (VProxy 0) (KStr ''sum'') (VFun 0) VUndef)"






text \<open>\<^verbatim>\<open>m.makeComputed(d, "self", function () { return this })\<close> on the observed data, and the
  same on the source object \<^verbatim>\<open>obj\<close> in a manager that has not observed it.\<close>

definition st_self :: state where
  "st_self = snd (makeComputed st_observed (VProxy 0) (KStr ''self'') (VFun 10) VUndef)"

definition st_unobserved :: state where
  "st_unobserved =
     snd (makeComputed (new_Manager default_options test_heap test_funs) (VObj 0) (KStr ''self'')
            (VFun 10) VUndef)"


definition st_five :: state where
  "st_five = snd (makeComputed st_observed (VProxy 0) (KStr ''five'') (VFun 5) VUndef)"





text \<open>
  \<^verbatim>\<open>m.makeComputed(d, "pick", self => self.flag ? (self.a, self.b) : self.b)\<close>, and then the
  states after each step of: read \<^verbatim>\<open>d.pick\<close>; \<^verbatim>\<open>d.flag = false\<close>; read \<^verbatim>\<open>d.pick\<close>; \<^verbatim>\<open>d.a = 5\<close>; read
  \<^verbatim>\<open>d.pick\<close>.
\<close>

definition st_pick :: state where
  "st_pick = snd (makeComputed st_observed (VProxy 0) (KStr ''pick'') (VFun 6) VUndef)"

definition st_pick1 :: state where
  "st_pick1 = the_state (getV 30 st_pick (VProxy 0) (KStr ''pick''))"

definition st_pick2 :: state where
  "st_pick2 = the_state (setV 30 st_pick1 (VProxy 0) (KStr ''flag'') (VBool False))"

definition st_pick3 :: state where
  "st_pick3 = the_state (getV 30 st_pick2 (VProxy 0) (KStr ''pick''))"

definition st_pick4 :: state where
  "st_pick4 = the_state (setV 30 st_pick3 (VProxy 0) (KStr ''a'') (VNum 5))"

definition st_pick5 :: state where
  "st_pick5 = the_state (getV 30 st_pick4 (VProxy 0) (KStr ''pick''))"

subsection \<open>The passes of the loop of run\<close>




subsection \<open>What a call may change while an updatable is computing\<close>

text \<open>
  \<open>during s s'\<close>: \<open>s'\<close> is reached from \<open>s\<close> by calls of the manager. The updatable states
  are kept (new ones may be added) with their functions, and both logs only grow. For a
  state that is computing in \<open>s\<close>: it is still computing in \<open>s'\<close>, its function has not been
  executed in between, and its \<^verbatim>\<open>invalidIteration\<close> flag is set in \<open>s'\<close> exactly when it was set
  in \<open>s\<close> or \<^verbatim>\<open>invalidateDeps\<close> was called for it in between.
\<close>

definition executions :: "state \<Rightarrow> nat \<Rightarrow> nat" where
  "executions s u = count_list (map fst (calls s)) u"

definition invalidations :: "state \<Rightarrow> nat \<Rightarrow> nat" where
  "invalidations s u = count_list (invalidated s) u"

definition during :: "state \<Rightarrow> state \<Rightarrow> bool" where
  "during s s' =
     (length (upds s) \<le> length (upds s')
      \<and> prefix (calls s) (calls s')
      \<and> prefix (invalidated s) (invalidated s')
      \<and> (\<forall>i < length (upds s).
            u_call (upds s' ! i) = u_call (upds s ! i)
            \<and> (u_computing (upds s ! i) \<longrightarrow>
                 u_computing (upds s' ! i)
                 \<and> executions s' i = executions s i
                 \<and> (u_invalidIteration (upds s' ! i) \<longleftrightarrow>
                      u_invalidIteration (upds s ! i) \<or> invalidations s i < invalidations s' i))))"

text \<open>\<open>pres m s\<close>: whatever the computation \<open>m\<close> returns, it ends in a state reached from \<open>s\<close>.\<close>

definition pres :: "res \<Rightarrow> state \<Rightarrow> bool" where
  "pres m s = (\<forall>r s'. m = Some (r, s') \<longrightarrow> during s s')"

section \<open>Properties of the invalidation and of the traps\<close>

lemma prefix_count_list: "prefix xs ys \<Longrightarrow> count_list xs i \<le> count_list ys i"
  by (auto simp: prefix_def)

lemma upd_inv_refl: "upd_inv x x"
  by (simp add: upd_inv_def)

lemma upd_inv_trans: "upd_inv x y \<Longrightarrow> upd_inv y z \<Longrightarrow> upd_inv x z"
  by (simp add: upd_inv_def)

lemma same_heap_refl: "same_heap s s"
  by (simp add: same_heap_def)

lemma same_heap_trans: "same_heap a b \<Longrightarrow> same_heap b c \<Longrightarrow> same_heap a c"
  by (simp add: same_heap_def)

lemma inval_rel_refl: "inval_rel s s"
  by (simp add: inval_rel_def upd_inv_refl same_heap_refl)

lemma inval_rel_trans:
  assumes "inval_rel a b" and "inval_rel b c"
  shows "inval_rel a c"
proof -
  have eq: "same_heap a c"
    using assms same_heap_trans by (auto simp: inval_rel_def)
  have len: "length (upds c) = length (upds a)" using assms by (simp add: inval_rel_def)
  have pre: "prefix (invalidated a) (invalidated c)"
    using assms unfolding inval_rel_def by (meson prefix_order.trans)
  have el: "\<forall>i < length (upds a). upd_inv (upds a ! i) (upds c ! i)
            \<and> (u_invalidIteration (upds c ! i) \<longleftrightarrow>
                 u_invalidIteration (upds a ! i)
                 \<or> count_list (invalidated a) i < count_list (invalidated c) i)"
  proof (intro allI impI)
    fix i assume i: "i < length (upds a)"
    then have ib: "i < length (upds b)" using assms(1) by (simp add: inval_rel_def)
    have ab: "upd_inv (upds a ! i) (upds b ! i)" and bc: "upd_inv (upds b ! i) (upds c ! i)"
      using assms i ib by (simp_all add: inval_rel_def)
    have fab: "u_invalidIteration (upds b ! i) \<longleftrightarrow>
                 u_invalidIteration (upds a ! i)
                 \<or> count_list (invalidated a) i < count_list (invalidated b) i"
      using assms(1) i by (simp add: inval_rel_def)
    have fbc: "u_invalidIteration (upds c ! i) \<longleftrightarrow>
                 u_invalidIteration (upds b ! i)
                 \<or> count_list (invalidated b) i < count_list (invalidated c) i"
      using assms(2) ib by (simp add: inval_rel_def)
    have c1: "count_list (invalidated a) i \<le> count_list (invalidated b) i"
      using assms(1) by (simp add: inval_rel_def prefix_count_list)
    have c2: "count_list (invalidated b) i \<le> count_list (invalidated c) i"
      using assms(2) by (simp add: inval_rel_def prefix_count_list)
    show "upd_inv (upds a ! i) (upds c ! i)
            \<and> (u_invalidIteration (upds c ! i) \<longleftrightarrow>
                 u_invalidIteration (upds a ! i)
                 \<or> count_list (invalidated a) i < count_list (invalidated c) i)"
      using upd_inv_trans [OF ab bc] fab fbc c1 c2 by auto
  qed
  show ?thesis unfolding inval_rel_def using eq len pre el by blast
qed

lemma map_upd_fields [simp]:
  "objs (map_upd f u s) = objs s" "proxies (map_upd f u s) = proxies s"
  "arrays (map_upd f u s) = arrays s" "funs (map_upd f u s) = funs s"
  "observables (map_upd f u s) = observables s" "cache (map_upd f u s) = cache s"
  "opts (map_upd f u s) = opts s" "callStack (map_upd f u s) = callStack s"
  "reactionsToUpdate (map_upd f u s) = reactionsToUpdate s"
  "mgr_valid (map_upd f u s) = mgr_valid s" "inRunSection (map_upd f u s) = inRunSection s"
  "runScheduled (map_upd f u s) = runScheduled s" "timers (map_upd f u s) = timers s"
  "onAfterRun (map_upd f u s) = onAfterRun s" "warnings (map_upd f u s) = warnings s"
  "calls (map_upd f u s) = calls s" "invalidated (map_upd f u s) = invalidated s"
  "length (upds (map_upd f u s)) = length (upds s)"
  by (simp_all add: map_upd_def)

lemma nth_map_upd [simp]:
  "i < length (upds s) \<Longrightarrow>
     upds (map_upd f u s) ! i = (if i = u then f (upds s ! i) else upds s ! i)"
  by (auto simp: map_upd_def)

lemma inval_rel_clear: "inval_rel s (map_upd (\<lambda>x. x\<lparr>u_deps := []\<rparr>) u s)"
  by (simp add: inval_rel_def same_heap_def upd_inv_def)

lemma inval_rel_enter: "enter s u = (s', new) \<Longrightarrow> inval_rel s s'"
  by (auto simp: enter_def Let_def inval_rel_def same_heap_def upd_inv_def
        get_upd_def nth_opt_def split: option.splits if_splits)

lemma inval_rel_tasks: "inval_rel s (invalidate_tasks s ts)"
proof (induction s ts rule: invalidate_tasks.induct)
  case (1 s)
  then show ?case by (simp add: inval_rel_refl)
next
  case (2 s u ts)
  then show ?case using inval_rel_trans [OF inval_rel_clear] by simp
next
  case (3 s par d ts)
  show ?case
  proof (cases "still_member s par d")
    case True
    obtain s' new where e: "enter s d = (s', new)" by (cases "enter s d")
    have "inval_rel s' (invalidate_tasks s' (new @ ts))" using 3(1) [OF True] e by simp
    with inval_rel_enter [OF e] have "inval_rel s (invalidate_tasks s' (new @ ts))"
      by (rule inval_rel_trans)
    then show ?thesis using True e by simp
  next
    case False
    then show ?thesis using 3(2) by simp
  qed
qed


lemma inval_rel_invalidateDeps: "inval_rel s (invalidateDeps s u)"
  unfolding invalidateDeps_def by (rule inval_rel_tasks)



lemma updateProperty_states_rel:
  "updateProperty_states s a k ups us = (r, s') \<Longrightarrow> inval_rel s s'"
proof (induction us arbitrary: s)
  case Nil
  then show ?case by (simp add: inval_rel_refl)
next
  case (Cons u us)
  show ?case
  proof (cases "map_of (updatableStateMap ups) u")
    case None
    then show ?thesis using Cons.prems by (simp add: inval_rel_refl)
  next
    case (Some e)
    show ?thesis
    proof (cases "must_invalidate s a k e")
      case (Inl err)
      then show ?thesis using Cons.prems Some by (simp add: inval_rel_refl)
    next
      case (Inr b)
      show ?thesis
      proof (cases "b \<and> user_hooks s")
        case True
        then show ?thesis using Cons.prems Some Inr by (simp add: inval_rel_refl)
      next
        case False
        let ?s1 = "if b then invalidateDeps s u else s"
        have 1: "inval_rel s ?s1" by (simp add: inval_rel_invalidateDeps inval_rel_refl)
        have "updateProperty_states ?s1 a k ups us = (r, s')"
          using Cons.prems Some Inr False by simp
        from Cons.IH [OF this] 1 show ?thesis by (blast intro: inval_rel_trans)
      qed
    qed
  qed
qed


lemma exec_Suc:
  "exec (Suc n) s (C_eval th ar e) = eval_body (exec n) s th ar e"
  "exec (Suc n) s (C_getV v k) = getV_body (exec n) s v k"
  "exec (Suc n) s (C_setV v k w) = setV_body (exec n) s v k w"
  "exec (Suc n) s (C_delV v k) = delV_body (exec n) s v k"
  "exec (Suc n) s (C_raw_get a k) = raw_get_body (exec n) s a k"
  "exec (Suc n) s (C_raw_set a k w) = raw_set_body (exec n) s a k w"
  "exec (Suc n) s (C_call_fn f th ar) = call_fn_body (exec n) s f th ar"
  "exec (Suc n) s (C_updatableFunction u th) = updatableFunction_body (exec n) s u th"
  "exec (Suc n) s (C_get_trap p k) = get_trap_body (exec n) s p k"
  "exec (Suc n) s (C_get_trap_read p k) = get_trap_read_body (exec n) s p k"
  "exec (Suc n) s (C_registerRead p u k protos) = registerRead_body (exec n) s p u k protos"
  "exec (Suc n) s (C_watchDeep_keys a ks) = watchDeep_keys_body (exec n) s a ks"
  "exec (Suc n) s (C_registerRead_subscribe p u k ck protos) =
     registerRead_subscribe_body (exec n) s p u k ck protos"
  "exec (Suc n) s (C_registerRead_walk u k arr pr) = registerRead_walk_body (exec n) s u k arr pr"
  "exec (Suc n) s (C_set_trap p k w) = set_trap_body (exec n) s p k w"
  "exec (Suc n) s (C_deleteProperty_trap p k) = deleteProperty_trap_body (exec n) s p k"
  "exec (Suc n) s (C_updateProperty p k) = updateProperty_body (exec n) s p k"
  "exec (Suc n) s (C_run action) = run_body (exec n) s action"
  "exec (Suc n) s (C_run_loop iterations) = run_loop_body (exec n) s iterations"
  "exec (Suc n) s (C_run_reactions us) = run_reactions_body (exec n) s us"
  "exec (Suc n) s (C_runDeferred action) = runDeferred_body (exec n) s action"
  "exec (Suc n) s (C_makeObservable v) = makeObservable_body (exec n) s v"
  "exec (Suc n) s (C_isObservable v) = isObservable_body (exec n) s v"
  by (simp_all add: step_def)

lemma exec_0: "exec 0 s c = None"
  by simp

declare exec.simps [simp del]

lemma bnd_simps [simp]:
  "bnd (ok v s) f = f v s"
  "bnd (throw e s) f = throw e s"
  "bnd None f = None"
  "bnd (Some (Inr v, s)) f = f v s"
  "bnd (Some (Inl e, s)) f = Some (Inl e, s)"
  by (simp_all add: bnd_def ok_def throw_def)

lemma try_finally_simps [simp]:
  "try_finally (ok v s) g = ok v (g s)"
  "try_finally (throw e s) g = throw e (g s)"
  "try_finally None g = None"
  "try_finally (Some (r, s)) g = Some (r, g s)"
  by (simp_all add: try_finally_def ok_def throw_def)


lemma updateProperty_key_rel:
  "updateProperty_key s p k uk = (r, s') \<Longrightarrow> inval_rel s s'"
  by (auto simp: updateProperty_key_def inval_rel_refl updateProperty_states_rel
        split: option.splits)

lemma updateProperty_invalidate_rel:
  assumes "updateProperty_invalidate s p k = (r, s')"
  shows "inval_rel s s'"
proof -
  obtain r1 s1 where 1: "updateProperty_key s p k k = (r1, s1)"
    by (cases "updateProperty_key s p k k")
  have a: "inval_rel s s1" by (rule updateProperty_key_rel [OF 1])
  show ?thesis
  proof (cases r1)
    case (Inl e)
    then show ?thesis using assms 1 a by (simp add: updateProperty_invalidate_def)
  next
    case (Inr v)
    then have "updateProperty_key s1 p k (watchKey (opts s1)) = (r, s')"
      using assms 1 by (simp add: updateProperty_invalidate_def)
    from updateProperty_key_rel [OF this] a show ?thesis by (blast intro: inval_rel_trans)
  qed
qed

lemma updateProperty_states_value:
  "updateProperty_states s a k ups us = (Inr v, s') \<Longrightarrow> v = VUndef"
  by (induction us arbitrary: s) (auto split: option.splits sum.splits if_splits)

lemma updateProperty_invalidate_value:
  "updateProperty_invalidate s p k = (Inr v, s') \<Longrightarrow> v = VUndef"
  by (auto simp: updateProperty_invalidate_def updateProperty_key_def
        dest: updateProperty_states_value split: option.splits sum.splits prod.splits)




lemma define_own_get_obj:
  "define_own s a k w = Inr s1 \<Longrightarrow> get_obj s a = Some ob \<Longrightarrow>
     \<exists>ob'. get_obj s1 a = Some ob' \<and> o_isArray ob' = o_isArray ob"
  by (auto simp: define_own_def store_own_def get_obj_def nth_opt_def
        split: option.splits sum.splits if_splits key.splits val.splits)






subsection \<open>Calls while an updatable is computing\<close>

lemma during_refl: "during s s"
  by (simp add: during_def)

lemma during_trans:
  assumes "during a b" and "during b c"
  shows "during a c"
proof -
  have len: "length (upds a) \<le> length (upds c)" using assms by (simp add: during_def)
  have p1: "prefix (calls a) (calls c)"
    using assms unfolding during_def by (meson prefix_order.trans)
  have p2: "prefix (invalidated a) (invalidated c)"
    using assms unfolding during_def by (meson prefix_order.trans)
  have el: "\<forall>i < length (upds a).
            u_call (upds c ! i) = u_call (upds a ! i)
            \<and> (u_computing (upds a ! i) \<longrightarrow>
                 u_computing (upds c ! i)
                 \<and> executions c i = executions a i
                 \<and> (u_invalidIteration (upds c ! i) \<longleftrightarrow>
                      u_invalidIteration (upds a ! i) \<or> invalidations a i < invalidations c i))"
  proof (intro allI impI)
    fix i assume i: "i < length (upds a)"
    then have ib: "i < length (upds b)" using assms(1) by (simp add: during_def)
    have ab: "u_call (upds b ! i) = u_call (upds a ! i)"
      "u_computing (upds a ! i) \<longrightarrow>
         u_computing (upds b ! i) \<and> executions b i = executions a i
         \<and> (u_invalidIteration (upds b ! i) \<longleftrightarrow>
              u_invalidIteration (upds a ! i) \<or> invalidations a i < invalidations b i)"
      using assms(1) i by (simp_all add: during_def)
    have bc: "u_call (upds c ! i) = u_call (upds b ! i)"
      "u_computing (upds b ! i) \<longrightarrow>
         u_computing (upds c ! i) \<and> executions c i = executions b i
         \<and> (u_invalidIteration (upds c ! i) \<longleftrightarrow>
              u_invalidIteration (upds b ! i) \<or> invalidations b i < invalidations c i)"
      using assms(2) ib by (simp_all add: during_def)
    have c1: "invalidations a i \<le> invalidations b i"
      using assms(1) by (simp add: during_def invalidations_def prefix_count_list)
    have c2: "invalidations b i \<le> invalidations c i"
      using assms(2) by (simp add: during_def invalidations_def prefix_count_list)
    show "u_call (upds c ! i) = u_call (upds a ! i)
            \<and> (u_computing (upds a ! i) \<longrightarrow>
                 u_computing (upds c ! i)
                 \<and> executions c i = executions a i
                 \<and> (u_invalidIteration (upds c ! i) \<longleftrightarrow>
                      u_invalidIteration (upds a ! i) \<or> invalidations a i < invalidations c i))"
      using ab bc c1 c2 by auto
  qed
  show ?thesis unfolding during_def using len p1 p2 el by blast
qed

lemma during_same:
  "during s0 s \<Longrightarrow> upds s1 = upds s \<Longrightarrow> calls s1 = calls s \<Longrightarrow>
     invalidated s1 = invalidated s \<Longrightarrow> during s0 s1"
  by (simp add: during_def executions_def invalidations_def)

lemma during_inval_rel: "inval_rel s s1 \<Longrightarrow> during s s1"
  by (auto simp: during_def inval_rel_def same_heap_def upd_inv_def executions_def
        invalidations_def)

lemma during_field [simp]:
  "during s0 (s\<lparr>objs := a1\<rparr>) = during s0 s"
  "during s0 (s\<lparr>proxies := a2\<rparr>) = during s0 s"
  "during s0 (s\<lparr>arrays := a3\<rparr>) = during s0 s"
  "during s0 (s\<lparr>observables := a4\<rparr>) = during s0 s"
  "during s0 (s\<lparr>cache := a5\<rparr>) = during s0 s"
  "during s0 (s\<lparr>callStack := a6\<rparr>) = during s0 s"
  "during s0 (s\<lparr>reactionsToUpdate := a7\<rparr>) = during s0 s"
  "during s0 (s\<lparr>mgr_valid := a8\<rparr>) = during s0 s"
  "during s0 (s\<lparr>inRunSection := a9\<rparr>) = during s0 s"
  "during s0 (s\<lparr>runScheduled := b1\<rparr>) = during s0 s"
  "during s0 (s\<lparr>timers := b2\<rparr>) = during s0 s"
  "during s0 (s\<lparr>warnings := b3\<rparr>) = during s0 s"
  by (simp_all add: during_def executions_def invalidations_def)

lemma during_map_proxy [simp]: "during s0 (map_proxy f p s) = during s0 s"
  by (simp add: map_proxy_def)

lemma during_map_obj [simp]: "during s0 (map_obj f a s) = during s0 s"
  by (simp add: map_obj_def)

lemma during_unshift [simp]: "during s0 (unshift arr e s) = during s0 s"
  by (simp add: unshift_def)

lemma during_map_ex [simp]: "during s0 (map_ex f p ck u s) = during s0 s"
  by (simp add: map_ex_def)

text \<open>An update of one updatable state that keeps its function and its two flags.\<close>

lemma during_map_upd:
  assumes "during s0 s"
    and "\<And>x. u_call (f x) = u_call x \<and> u_computing (f x) = u_computing x
               \<and> u_invalidIteration (f x) = u_invalidIteration x"
  shows "during s0 (map_upd f u s)"
proof -
  have len: "length (upds s0) \<le> length (upds s)" using assms(1) by (simp add: during_def)
  have "during s (map_upd f u s)"
    using assms(2) by (simp add: during_def executions_def invalidations_def)
  with assms(1) show ?thesis by (rule during_trans)
qed

lemma during_map_upd_simple [simp]:
  "during s0 s \<Longrightarrow> during s0 (map_upd (\<lambda>x. x\<lparr>u_deps := d x\<rparr>) u s)"
  "during s0 s \<Longrightarrow> during s0 (map_upd (\<lambda>x. x\<lparr>u_uninit := n x\<rparr>) u s)"
  "during s0 s \<Longrightarrow> during s0 (map_upd (\<lambda>x. x\<lparr>u_valid := v x, u_value := w\<rparr>) u s)"
  by (rule during_map_upd; simp)+

lemma during_computing_on [simp]:
  assumes "during s0 s"
  shows "during s0 (map_upd (\<lambda>x. x\<lparr>u_computing := True\<rparr>) u s)"
proof -
  have "during s (map_upd (\<lambda>x. x\<lparr>u_computing := True\<rparr>) u s)"
    by (simp add: during_def executions_def invalidations_def)
  with assms show ?thesis by (rule during_trans)
qed

text \<open>What the updatable function does to its own state is invisible from a state in which
  it was not computing.\<close>

lemma during_own_state:
  assumes "during s0 s" and "u < length (upds s0)" and "\<not> u_computing (upds s0 ! u)"
    and "\<And>x. u_call (f x) = u_call x"
  shows "during s0 (map_upd f u s)"
proof -
  have len: "length (upds s0) \<le> length (upds s)" using assms(1) by (simp add: during_def)
  show ?thesis
    using assms len unfolding during_def
    by (auto simp: executions_def invalidations_def)
qed

lemma during_own_call:
  assumes "during s0 s" and "u < length (upds s0)" and "\<not> u_computing (upds s0 ! u)"
  shows "during s0 (s\<lparr>calls := calls s @ [(u, ctx)]\<rparr>)"
  using assms unfolding during_def
  by (auto simp: executions_def invalidations_def prefix_def)

lemma during_subscribe [simp]: "during s0 s \<Longrightarrow> during s0 (subscribe s p u ck)"
  by (simp add: subscribe_def Let_def split: option.splits)

lemma during_registerRead_meta:
  "during s0 s \<Longrightarrow> registerRead_meta s p u ck protos = (r, s1) \<Longrightarrow> during s0 s1"
  by (auto simp: registerRead_meta_def Let_def split: option.splits if_splits)

lemma during_uninit_entry [simp]: "during s0 (uninit_entry u s ent) = during s0 s"
  by (simp add: uninit_entry_def Let_def split: prod.splits option.splits)

lemma during_foldl_uninit: "during s0 (foldl (uninit_entry u) s es) = during s0 s"
  by (induction es arbitrary: s) simp_all

lemma during_run_uninit [simp]: "during s0 s \<Longrightarrow> during s0 (run_uninit s u)"
  by (simp add: run_uninit_def during_foldl_uninit split: option.splits)

lemma during_makeUpdatable:
  assumes "during s0 s" and "makeUpdatable s call ob onInv = (r, s1)"
  shows "during s0 s1"
proof -
  have "during s s1"
    using assms(2)
    by (auto simp: makeUpdatable_def Let_def during_def executions_def invalidations_def
          nth_append split: val.splits option.splits if_splits)
  with assms(1) show ?thesis by (rule during_trans)
qed

lemma during_define_own: "during s0 s \<Longrightarrow> define_own s a k w = Inr s1 \<Longrightarrow> during s0 s1"
  by (auto simp: define_own_def split: option.splits sum.splits)

lemma during_updateProperty_invalidate:
  "during s0 s \<Longrightarrow> updateProperty_invalidate s p k = (r, s1) \<Longrightarrow> during s0 s1"
  using during_trans during_inval_rel updateProperty_invalidate_rel by blast

subsection \<open>Every call of the manager\<close>

lemma pres_ok [simp]: "during s0 s \<Longrightarrow> pres (ok v s) s0"
  by (simp add: pres_def ok_def)

lemma pres_throw [simp]: "during s0 s \<Longrightarrow> pres (throw e s) s0"
  by (simp add: pres_def throw_def)

lemma pres_Some [simp]: "during s0 s \<Longrightarrow> pres (Some (x, s)) s0"
  by (simp add: pres_def)

lemma pres_None [simp]: "pres None s0"
  by (simp add: pres_def)

lemma pres_bnd:
  assumes "pres m s0" and "\<And>v s. during s0 s \<Longrightarrow> pres (f v s) s0"
  shows "pres (bnd m f) s0"
  unfolding pres_def
proof (intro allI impI)
  fix r s' assume b: "bnd m f = Some (r, s')"
  show "during s0 s'"
  proof (cases m)
    case None
    then show ?thesis using b by simp
  next
    case (Some x)
    obtain r1 s1 where x: "x = (r1, s1)" by (cases x)
    have d1: "during s0 s1" using assms(1) Some x by (simp add: pres_def)
    show ?thesis
    proof (cases r1)
      case (Inl e)
      then show ?thesis using b Some x d1 by simp
    next
      case (Inr v)
      then have "f v s1 = Some (r, s')" using b Some x by simp
      then show ?thesis using assms(2) [OF d1, of v] by (simp add: pres_def)
    qed
  qed
qed

lemma pres_try_finally:
  assumes "pres m s0" and "\<And>s. during s0 s \<Longrightarrow> during s0 (g s)"
  shows "pres (try_finally m g) s0"
  using assms by (auto simp: pres_def try_finally_def split: option.splits)

lemma pres_rec:
  assumes "\<And>s c r s'. rec s c = Some (r, s') \<Longrightarrow> during s s'" and "during s0 s"
  shows "pres (rec s c) s0"
  using assms during_trans by (auto simp: pres_def)

lemma pres_makeUpdatable: "during s0 s \<Longrightarrow> pres (Some (makeUpdatable s call ob onInv)) s0"
  by (cases "makeUpdatable s call ob onInv") (auto simp: pres_def intro: during_makeUpdatable)

lemma pres_updateProperty_invalidate:
  "during s0 s \<Longrightarrow> pres (Some (updateProperty_invalidate s p k)) s0"
  by (cases "updateProperty_invalidate s p k") (auto simp: pres_def intro: during_updateProperty_invalidate)

lemma during_if: "during a x \<Longrightarrow> during a y \<Longrightarrow> during a (if b then x else y)"
  by simp

lemma get_upd_Some: "get_upd s u = Some st \<Longrightarrow> u < length (upds s) \<and> upds s ! u = st"
  by (auto simp: get_upd_def nth_opt_def split: if_splits)

lemma pres_updatableFunction:
  assumes R: "\<And>s' c. during s s' \<Longrightarrow> pres (rec s' c) s"
  shows "pres (updatableFunction_body rec s u th) s"
proof (cases "get_upd s u")
  case None
  then show ?thesis by (simp add: updatableFunction_body_def during_refl)
next
  case (Some st)
  note u = get_upd_Some [OF Some]
  show ?thesis
  proof (cases "u_computing st")
    case True
    then show ?thesis using Some by (simp add: updatableFunction_body_def during_refl)
  next
    case False
    have own: "\<And>f s'. during s s' \<Longrightarrow> (\<And>x. u_call (f x) = u_call x) \<Longrightarrow> during s (map_upd f u s')"
      using u False by (intro during_own_state) simp_all
    have call: "\<And>s' ctx. during s s' \<Longrightarrow> during s (s'\<lparr>calls := calls s' @ [(u, ctx)]\<rparr>)"
      using u False by (intro during_own_call) simp_all
    show ?thesis
    proof (cases "u_valid st")
      case True
      then show ?thesis using Some False
        by (simp add: updatableFunction_body_def Let_def during_refl)
    next
      case nv: False
      show ?thesis
        apply (simp only: updatableFunction_body_def Some option.case False nv if_False Let_def)
        apply (intro pres_try_finally pres_bnd R pres_ok during_if call own
                 during_field [THEN iffD2] during_run_uninit during_refl)
        apply simp_all
        done
    qed
  qed
qed

lemma pres_checked:
  "during s0 s \<Longrightarrow> pres (get_checked s p k r) s0"
  "during s0 s \<Longrightarrow> pres (set_checked s p k r) s0"
  "during s0 s \<Longrightarrow> pres (delete_checked s p k r) s0"
  by (auto simp: get_checked_def set_checked_def delete_checked_def
        split: option.splits property.splits)

lemma pres_eval:
  assumes R: "\<And>s c. during s0 s \<Longrightarrow> pres (rec s c) s0" and d: "during s0 s"
  shows "pres (eval_body rec s th ar e) s0"
  using d by (cases e) (auto simp: eval_body_def intro!: pres_bnd R)

lemma pres_getV:
  assumes R: "\<And>s c. during s0 s \<Longrightarrow> pres (rec s c) s0" and d: "during s0 s"
  shows "pres (getV_body rec s v k) s0"
  using d by (cases v) (auto simp: getV_body_def intro!: pres_bnd R pres_checked)

lemma pres_setV:
  assumes R: "\<And>s c. during s0 s \<Longrightarrow> pres (rec s c) s0" and d: "during s0 s"
  shows "pres (setV_body rec s v k w) s0"
  using d by (cases v) (auto simp: setV_body_def intro!: pres_bnd R pres_checked)

lemma pres_delV:
  assumes R: "\<And>s c. during s0 s \<Longrightarrow> pres (rec s c) s0" and d: "during s0 s"
  shows "pres (delV_body rec s v k) s0"
  using d by (cases v) (auto simp: delV_body_def intro!: pres_bnd R pres_checked split: option.splits)

lemma pres_raw_get:
  assumes R: "\<And>s c. during s0 s \<Longrightarrow> pres (rec s c) s0" and d: "during s0 s"
  shows "pres (raw_get_body rec s a k) s0"
  using d by (auto simp: raw_get_body_def intro!: pres_bnd R split: lookup.splits property.splits option.splits)

lemma pres_raw_set:
  assumes R: "\<And>s c. during s0 s \<Longrightarrow> pres (rec s c) s0" and d: "during s0 s"
  shows "pres (raw_set_body rec s a k w) s0"
  using d by (auto simp: raw_set_body_def intro!: pres_bnd R pres_ok intro: during_define_own
        split: lookup.splits property.splits sum.splits option.splits)

lemma pres_call_fn:
  assumes R: "\<And>s c. during s0 s \<Longrightarrow> pres (rec s c) s0" and d: "during s0 s"
  shows "pres (call_fn_body rec s f th ar) s0"
  using d by (cases f) (auto simp: call_fn_body_def intro!: pres_bnd R split: option.splits)

lemma pres_get_trap_value:
  assumes R: "\<And>s c. during s0 s \<Longrightarrow> pres (rec s c) s0" and d: "during s0 s"
  shows "pres (get_trap_value rec s p a k) s0"
  using d by (auto simp: get_trap_value_def intro!: pres_bnd R)

lemma pres_get_trap:
  assumes R: "\<And>s c. during s0 s \<Longrightarrow> pres (rec s c) s0" and d: "during s0 s"
  shows "pres (get_trap_body rec s p k) s0"
  using d by (auto simp: get_trap_body_def intro!: pres_bnd R pres_makeUpdatable split: option.splits property.splits prod.splits)

lemma pres_get_trap_read:
  assumes R: "\<And>s c. during s0 s \<Longrightarrow> pres (rec s c) s0" and d: "during s0 s"
  shows "pres (get_trap_read_body rec s p k) s0"
  using d by (auto simp: get_trap_read_body_def intro!: pres_bnd R pres_get_trap_value split: option.splits)

lemma pres_registerRead:
  assumes R: "\<And>s c. during s0 s \<Longrightarrow> pres (rec s c) s0" and d: "during s0 s"
  shows "pres (registerRead_body rec s p u k protos) s0"
  using d by (auto simp: registerRead_body_def intro!: pres_bnd R split: option.splits)

lemma pres_watchDeep_keys:
  assumes R: "\<And>s c. during s0 s \<Longrightarrow> pres (rec s c) s0" and d: "during s0 s"
  shows "pres (watchDeep_keys_body rec s a ks) s0"
  using d by (cases ks) (auto simp: watchDeep_keys_body_def intro!: pres_bnd R)

lemma pres_registerRead_subscribe:
  assumes R: "\<And>s c. during s0 s \<Longrightarrow> pres (rec s c) s0" and d: "during s0 s"
  shows "pres (registerRead_subscribe_body rec s p u k ck protos) s0"
  using d by (auto simp: registerRead_subscribe_body_def intro!: pres_bnd R pres_ok pres_throw intro: during_registerRead_meta [OF during_subscribe] split: option.splits prod.splits sum.splits)

lemma pres_registerRead_walk:
  assumes R: "\<And>s c. during s0 s \<Longrightarrow> pres (rec s c) s0" and d: "during s0 s"
  shows "pres (registerRead_walk_body rec s u k arr pr) s0"
  using d by (cases pr) (auto simp: registerRead_walk_body_def intro!: pres_bnd R split: option.splits val.splits)

lemma pres_set_trap:
  assumes R: "\<And>s c. during s0 s \<Longrightarrow> pres (rec s c) s0" and d: "during s0 s"
  shows "pres (set_trap_body rec s p k w) s0"
  using d by (auto simp: set_trap_body_def intro!: pres_bnd R split: option.splits)

lemma pres_deleteProperty_trap:
  assumes R: "\<And>s c. during s0 s \<Longrightarrow> pres (rec s c) s0" and d: "during s0 s"
  shows "pres (deleteProperty_trap_body rec s p k) s0"
  using d by (auto simp: deleteProperty_trap_body_def intro!: pres_bnd R)

lemma pres_updateProperty:
  assumes R: "\<And>s c. during s0 s \<Longrightarrow> pres (rec s c) s0" and d: "during s0 s"
  shows "pres (updateProperty_body rec s p k) s0"
  using d by (auto simp: updateProperty_body_def intro!: pres_bnd R pres_updateProperty_invalidate)

lemma pres_run:
  assumes R: "\<And>s c. during s0 s \<Longrightarrow> pres (rec s c) s0" and d: "during s0 s"
  shows "pres (run_body rec s action) s0"
  using d by (auto simp: run_body_def intro!: pres_bnd R pres_try_finally)

lemma pres_run_loop:
  assumes R: "\<And>s c. during s0 s \<Longrightarrow> pres (rec s c) s0" and d: "during s0 s"
  shows "pres (run_loop_body rec s iterations) s0"
  using d by (auto simp: run_loop_body_def intro!: pres_bnd R)

lemma pres_run_reactions:
  assumes R: "\<And>s c. during s0 s \<Longrightarrow> pres (rec s c) s0" and d: "during s0 s"
  shows "pres (run_reactions_body rec s us) s0"
  using d by (cases us) (auto simp: run_reactions_body_def intro!: pres_bnd R)

lemma pres_runDeferred:
  assumes R: "\<And>s c. during s0 s \<Longrightarrow> pres (rec s c) s0" and d: "during s0 s"
  shows "pres (runDeferred_body rec s action) s0"
  using d by (auto simp: runDeferred_body_def Let_def intro!: pres_bnd R pres_try_finally)

lemma pres_makeObservable:
  assumes R: "\<And>s c. during s0 s \<Longrightarrow> pres (rec s c) s0" and d: "during s0 s"
  shows "pres (makeObservable_body rec s v) s0"
  using d by (auto simp: makeObservable_body_def intro!: pres_bnd R split: val.splits option.splits)

lemma pres_isObservable:
  assumes R: "\<And>s c. during s0 s \<Longrightarrow> pres (rec s c) s0" and d: "during s0 s"
  shows "pres (isObservable_body rec s v) s0"
  using d by (auto simp: isObservable_body_def intro!: pres_bnd R)

lemmas pres_bodies = pres_eval pres_getV pres_setV pres_delV pres_raw_get pres_raw_set
  pres_call_fn pres_get_trap pres_get_trap_read pres_registerRead pres_watchDeep_keys
  pres_registerRead_subscribe pres_registerRead_walk pres_set_trap pres_deleteProperty_trap
  pres_updateProperty pres_run pres_run_loop pres_run_reactions pres_runDeferred
  pres_makeObservable pres_isObservable

theorem exec_during: "exec n s c = Some (r, s') \<Longrightarrow> during s s'"
proof (induction n arbitrary: s c r s')
  case 0
  then show ?case by (simp add: exec.simps)
next
  case (Suc n)
  have R: "\<And>s0 s1 c. during s0 s1 \<Longrightarrow> pres (exec n s1 c) s0"
    unfolding pres_def using Suc.IH during_trans by blast
  have "pres (step (exec n) s c) s"
    by (cases c) (simp_all add: step_def pres_bodies R pres_updatableFunction during_refl)
  with Suc.prems show ?case by (simp add: pres_def exec.simps)
qed


subsection \<open>Stores and deletes through a wrapper\<close>







lemma get_obj_Some: "get_obj s a = Some ob \<Longrightarrow> a < length (objs s) \<and> objs s ! a = ob"
  by (auto simp: get_obj_def nth_opt_def split: if_splits)









subsection \<open>A run of an updatable function\<close>

lemma call_context_cong: "observables s1 = observables s \<Longrightarrow> call_context s1 th = call_context s th"
  by (cases th) (simp_all add: call_context_def)

lemma map_proxy_fields [simp]:
  "upds (map_proxy f p s) = upds s" "observables (map_proxy f p s) = observables s"
  "calls (map_proxy f p s) = calls s" "invalidated (map_proxy f p s) = invalidated s"
  "callStack (map_proxy f p s) = callStack s" "objs (map_proxy f p s) = objs s"
  "opts (map_proxy f p s) = opts s" "funs (map_proxy f p s) = funs s"
  by (simp_all add: map_proxy_def)

lemma uninit_entry_fields [simp]:
  "upds (uninit_entry u s e) = upds s" "observables (uninit_entry u s e) = observables s"
  "calls (uninit_entry u s e) = calls s" "invalidated (uninit_entry u s e) = invalidated s"
  "callStack (uninit_entry u s e) = callStack s" "objs (uninit_entry u s e) = objs s"
  "opts (uninit_entry u s e) = opts s" "funs (uninit_entry u s e) = funs s"
  by (simp_all add: uninit_entry_def Let_def split: prod.splits option.splits)

lemma foldl_uninit_fields [simp]:
  "upds (foldl (uninit_entry u) s es) = upds s"
  "observables (foldl (uninit_entry u) s es) = observables s"
  "calls (foldl (uninit_entry u) s es) = calls s"
  "invalidated (foldl (uninit_entry u) s es) = invalidated s"
  "callStack (foldl (uninit_entry u) s es) = callStack s"
  "objs (foldl (uninit_entry u) s es) = objs s"
  "opts (foldl (uninit_entry u) s es) = opts s"
  "funs (foldl (uninit_entry u) s es) = funs s"
  by (induction es arbitrary: s) simp_all

lemma run_uninit_fields [simp]:
  "observables (run_uninit s u) = observables s" "calls (run_uninit s u) = calls s"
  "invalidated (run_uninit s u) = invalidated s" "callStack (run_uninit s u) = callStack s"
  "objs (run_uninit s u) = objs s" "opts (run_uninit s u) = opts s" "funs (run_uninit s u) = funs s"
  "length (upds (run_uninit s u)) = length (upds s)"
  by (simp_all add: run_uninit_def map_upd_def split: option.splits)

lemma run_uninit_upd:
  "i < length (upds s) \<Longrightarrow>
     u_computing (upds (run_uninit s u) ! i) = u_computing (upds s ! i)
     \<and> u_invalidIteration (upds (run_uninit s u) ! i) = u_invalidIteration (upds s ! i)
     \<and> u_valid (upds (run_uninit s u) ! i) = u_valid (upds s ! i)
     \<and> u_value (upds (run_uninit s u) ! i) = u_value (upds s ! i)
     \<and> u_call (upds (run_uninit s u) ! i) = u_call (upds s ! i)
     \<and> u_deps (upds (run_uninit s u) ! i) = u_deps (upds s ! i)"
  by (cases "i = u") (auto simp: run_uninit_def map_upd_def split: option.splits)

lemma call_context_simps [simp]:
  "call_context (s\<lparr>callStack := cs\<rparr>) th = call_context s th"
  "call_context (map_upd f u s) th = call_context s th"
  "call_context (run_uninit s u) th = call_context s th"
  by (rule call_context_cong; simp)+

lemma updatableFunction_recompute:
  assumes st: "get_upd s u = Some st" and nc: "\<not> u_computing st" and nv: "\<not> u_valid st"
    and run: "updatableFunction (Suc n) s u th = Some (r, s')"
  shows "\<exists>s6 r7 s7.
           exec n s6 (C_call_fn (u_call st) (call_context s th) (call_context s th)) = Some (r7, s7)
         \<and> length (upds s6) = length (upds s) \<and> u_computing (upds s6 ! u)
         \<and> \<not> u_invalidIteration (upds s6 ! u)
         \<and> invalidated s6 = invalidated s \<and> funs s6 = funs s
         \<and> calls s6 = calls s @ (if typeof_function (u_call st) then [(u, call_context s th)] else [])
         \<and> invalidated s' = invalidated s7 \<and> calls s' = calls s7
         \<and> length (upds s') = length (upds s7)
         \<and> (u < length (upds s7) \<longrightarrow> \<not> u_computing (upds s' ! u)
              \<and> (case r7 of
                    Inl e \<Rightarrow> r = Inl e \<and> u_valid (upds s' ! u) = u_valid (upds s7 ! u)
                  | Inr v \<Rightarrow> r = Inr v \<and> u_value (upds s' ! u) = v
                             \<and> u_valid (upds s' ! u) = (\<not> u_invalidIteration (upds s7 ! u))))"
proof -
  note u = get_upd_Some [OF st]
  define s1 where "s1 = (if callStack s \<noteq> []
                        then map_upd (\<lambda>x. x\<lparr>u_deps := jsset_add (last (callStack s)) (u_deps x)\<rparr>) u s
                        else s)"
  define s3 where "s3 = run_uninit (map_upd (\<lambda>x. x\<lparr>u_computing := True\<rparr>) u s1) u"
  define s4 where "s4 = s3\<lparr>callStack := callStack s3 @ [u]\<rparr>"
  define s5 where "s5 = map_upd (\<lambda>x. x\<lparr>u_invalidIteration := False\<rparr>) u s4"
  define s6 where "s6 = (if typeof_function (u_call st)
                         then s5\<lparr>calls := calls s5 @ [(u, call_context s4 th)]\<rparr> else s5)"
  have ctx: "call_context s4 th = call_context s th"
    by (rule call_context_cong) (simp add: s4_def s3_def s1_def)
  have l1: "length (upds s1) = length (upds s)" by (simp add: s1_def map_upd_def)
  have l6: "length (upds s6) = length (upds s)"
    by (simp add: s6_def s5_def s4_def s3_def l1 map_upd_def)
  have c6: "u_computing (upds s6 ! u)" "\<not> u_invalidIteration (upds s6 ! u)"
    using u l1
    by (simp_all add: s6_def s5_def s4_def s3_def map_upd_def run_uninit_upd)
  have i6: "invalidated s6 = invalidated s" "funs s6 = funs s"
    by (simp_all add: s6_def s5_def s4_def s3_def s1_def)
  have k6: "calls s6 = calls s @ (if typeof_function (u_call st) then [(u, call_context s th)] else [])"
    by (simp add: s6_def s5_def s4_def s3_def s1_def ctx)
  have body: "updatableFunction (Suc n) s u th =
     try_finally
       (bnd (exec n s6 (C_call_fn (u_call st) (call_context s th) (call_context s th)))
          (\<lambda>v s7. ok v (map_upd (\<lambda>x. x\<lparr>u_valid := \<not> u_invalidIteration x, u_value := v\<rparr>) u s7)))
       (\<lambda>sf. (map_upd (\<lambda>x. x\<lparr>u_computing := False\<rparr>) u sf)\<lparr>callStack := butlast (callStack sf)\<rparr>)"
    using st nc nv
    by (simp add: updatableFunction_def exec_Suc updatableFunction_body_def Let_def
          s1_def s3_def s4_def s5_def s6_def ctx [unfolded s4_def s3_def s1_def])
  obtain r7 s7 where e: "exec n s6 (C_call_fn (u_call st) (call_context s th) (call_context s th))
                         = Some (r7, s7)"
    using run unfolding body
    by (cases "exec n s6 (C_call_fn (u_call st) (call_context s th) (call_context s th))")
       (auto simp: try_finally_def)
  have fin: "invalidated s' = invalidated s7 \<and> calls s' = calls s7
         \<and> length (upds s') = length (upds s7)
         \<and> (u < length (upds s7) \<longrightarrow> \<not> u_computing (upds s' ! u)
              \<and> (case r7 of
                    Inl e \<Rightarrow> r = Inl e \<and> u_valid (upds s' ! u) = u_valid (upds s7 ! u)
                  | Inr v \<Rightarrow> r = Inr v \<and> u_value (upds s' ! u) = v
                             \<and> u_valid (upds s' ! u) = (\<not> u_invalidIteration (upds s7 ! u))))"
    using run unfolding body e
    by (cases r7) (auto simp: try_finally_def ok_def map_upd_def)
  show ?thesis using e l6 c6 i6 k6 fin by blast
qed


lemma updatableFunction_run:
  assumes st: "get_upd s u = Some st" and nc: "\<not> u_computing st" and nv: "\<not> u_valid st"
    and run: "updatableFunction (Suc n) s u th = Some (r, s')"
  shows "prefix (calls s @ (if typeof_function (u_call st) then [(u, call_context s th)] else []))
           (calls s')"
    and "executions s' u = executions s u + (if typeof_function (u_call st) then 1 else 0)"
    and "r = Inr x \<Longrightarrow> u_value (upds s' ! u) = x"
    and "r = Inr x \<Longrightarrow> u_valid (upds s' ! u) \<longleftrightarrow> invalidations s' u = invalidations s u"
    and "\<not> u_computing (upds s' ! u)"
proof -
  note u = get_upd_Some [OF st]
  from updatableFunction_recompute [OF st nc nv run]
  obtain s6 r7 s7 where
    e: "exec n s6 (C_call_fn (u_call st) (call_context s th) (call_context s th)) = Some (r7, s7)"
    and l6: "length (upds s6) = length (upds s)"
    and c6: "u_computing (upds s6 ! u)" "\<not> u_invalidIteration (upds s6 ! u)"
    and i6: "invalidated s6 = invalidated s" and f6: "funs s6 = funs s"
    and k6: "calls s6 = calls s @ (if typeof_function (u_call st) then [(u, call_context s th)] else [])"
    and i7: "invalidated s' = invalidated s7" and k7: "calls s' = calls s7"
    and fin: "u < length (upds s7) \<longrightarrow> \<not> u_computing (upds s' ! u)
              \<and> (case r7 of
                    Inl e \<Rightarrow> r = Inl e \<and> u_valid (upds s' ! u) = u_valid (upds s7 ! u)
                  | Inr v \<Rightarrow> r = Inr v \<and> u_value (upds s' ! u) = v
                             \<and> u_valid (upds s' ! u) = (\<not> u_invalidIteration (upds s7 ! u)))"
    by blast
  have d: "during s6 s7" by (rule exec_during [OF e])
  have u6: "u < length (upds s6)" using u l6 by simp
  then have u7: "u < length (upds s7)" using d by (simp add: during_def)
  have ex: "executions s7 u = executions s6 u"
    and it: "u_invalidIteration (upds s7 ! u) \<longleftrightarrow> invalidations s6 u < invalidations s7 u"
    and pc: "prefix (calls s6) (calls s7)" and pi: "prefix (invalidated s6) (invalidated s7)"
    using d u6 c6 unfolding during_def by auto
  show "prefix (calls s @ (if typeof_function (u_call st) then [(u, call_context s th)] else []))
           (calls s')"
    using pc k6 k7 by simp
  show "executions s' u = executions s u + (if typeof_function (u_call st) then 1 else 0)"
    using ex k6 k7 by (simp add: executions_def)
  show "\<not> u_computing (upds s' ! u)" using fin u7 by simp
  have le: "invalidations s6 u \<le> invalidations s7 u"
    using pi by (simp add: invalidations_def prefix_count_list)
  have eq: "invalidations s6 u = invalidations s u" "invalidations s' u = invalidations s7 u"
    using i6 i7 by (simp_all add: invalidations_def)
  show "u_value (upds s' ! u) = x" if "r = Inr x"
    using fin u7 that by (cases r7) auto
  show "u_valid (upds s' ! u) \<longleftrightarrow> invalidations s' u = invalidations s u" if "r = Inr x"
  proof -
    have "u_valid (upds s' ! u) = (\<not> u_invalidIteration (upds s7 ! u))"
      using fin u7 that by (cases r7) auto
    then show ?thesis using it le eq by auto
  qed
qed

text \<open>A demand of a valid updatable returns the cached value and executes nothing.\<close>

lemma updatableFunction_cached:
  assumes "get_upd s u = Some st" and "\<not> u_computing st" and "u_valid st"
  shows "\<exists>s'. updatableFunction (Suc n) s u th = Some (Inr (u_value st), s')
           \<and> calls s' = calls s \<and> invalidated s' = invalidated s \<and> objs s' = objs s
           \<and> length (upds s') = length (upds s)
           \<and> (\<forall>i < length (upds s). u_valid (upds s' ! i) = u_valid (upds s ! i)
                 \<and> u_value (upds s' ! i) = u_value (upds s ! i))"
  using assms
  by (auto simp: updatableFunction_def exec_Suc updatableFunction_body_def Let_def ok_def)


subsection \<open>Reads through a wrapper, makeObservable and isObservable\<close>










subsection \<open>The loop of run\<close>




section \<open>The claims\<close>

text \<open>
  Each claim of the specification is stated below for the functions of the embedding. A
  result \<open>Inl Unmodelled\<close> says that the run has left what the embedding covers; a statement
  that depends on such a result makes no claim about the code there.
\<close>

text \<open>
  C1. The code executes the function of a computed property more often than the claim
  allows. \<^verbatim>\<open>registerRead\<close> keeps the teardown closures of an updatable in a \<^verbatim>\<open>Map\<close> keyed by the
  data source, so of the keys read on one source only the last keeps its closure; the
  subscriptions under the other keys survive the next execution. With
  \<^verbatim>\<open>pick = self => self.flag ? (self.a, self.b) : self.b\<close>: the first read of \<^verbatim>\<open>d.pick\<close> reads
  \<^verbatim>\<open>flag\<close>, \<^verbatim>\<open>a\<close> and \<^verbatim>\<open>b\<close>; after \<^verbatim>\<open>d.flag = false\<close> the second read executes the function, which
  reads \<^verbatim>\<open>flag\<close> and \<^verbatim>\<open>b\<close> only, and leaves one closure, for \<^verbatim>\<open>b\<close>, while the updatable is still
  subscribed under \<^verbatim>\<open>a\<close>. So \<^verbatim>\<open>d.a = 5\<close>, a write to a key that the last execution did not read,
  invalidates the memo, and the third read executes the function a third time, for the
  same value.
\<close>

theorem stale_subscription:
  "executions st_pick 0 = 0
   \<and> the_val (getV 30 st_pick (VProxy 0) (KStr ''pick'')) = Inr (VNum 2)
   \<and> executions st_pick1 0 = 1
   \<and> the_val (setV 30 st_pick1 (VProxy 0) (KStr ''flag'') (VBool False)) = Inr (VBool False)
   \<and> \<not> u_valid (upds st_pick2 ! 0)
   \<and> the_val (getV 30 st_pick2 (VProxy 0) (KStr ''pick'')) = Inr (VNum 2)
   \<and> executions st_pick3 0 = 2
   \<and> u_valid (upds st_pick3 ! 0)
   \<and> u_uninit (upds st_pick3 ! 0) = [(0, 0, KStr ''b'')]
   \<and> readers st_pick3 0 (KStr ''a'') = [0]
   \<and> the_val (setV 30 st_pick3 (VProxy 0) (KStr ''a'') (VNum 5)) = Inr (VNum 5)
   \<and> \<not> u_valid (upds st_pick4 ! 0)
   \<and> the_val (getV 30 st_pick4 (VProxy 0) (KStr ''pick'')) = Inr (VNum 2)
   \<and> executions st_pick5 0 = 3"
  by code_simp

text \<open>
  What the two branches of the updatable function do for the count: a demand of a valid
  memo returns the cached value and executes nothing, and a demand of an invalid one
  executes the function exactly once.
\<close>

lemma demand_executions:
  assumes "get_upd s u = Some st" and "\<not> u_computing st" and "typeof_function (u_call st)"
    and "updatableFunction (Suc n) s u th = Some (r, s')"
  shows "executions s' u = executions s u + (if u_valid st then 0 else 1)"
    and "u_valid st \<Longrightarrow> r = Inr (u_value st)"
proof -
  show "executions s' u = executions s u + (if u_valid st then 0 else 1)"
  proof (cases "u_valid st")
    case True
    from updatableFunction_cached [OF assms(1,2) True, of n th] assms(4)
    show ?thesis using True by (auto simp: executions_def)
  next
    case False
    from updatableFunction_run(2) [OF assms(1,2) False assms(4)] assms(3)
    show ?thesis using False by simp
  qed
  show "r = Inr (u_value st)" if "u_valid st"
    using updatableFunction_cached [OF assms(1,2) that, of n th] assms(4) by auto
qed










text \<open>
  C5. When an updatable function is called while its own \<^verbatim>\<open>computing\<close> flag is set, the call
  returns \<^verbatim>\<open>undefined\<close>, throws nothing, and changes nothing but the warning sink, which
  receives exactly the diagnostic of the source.
\<close>

theorem cross_reference:
  \<open>get_upd s u = Some st \<Longrightarrow> u_computing st \<Longrightarrow>
     updatableFunction (Suc n) s u th =
       Some (Inr VUndef, s\<lparr>warnings := warnings s @
         [''Detected cross reference inside computed properties! "undefined" will be returned to prevent infinite loop'']\<rparr>)\<close>
  by (simp add: updatableFunction_def exec_Suc updatableFunction_body_def ok_def
        cross_reference_warning_def)

text \<open>The theorem at the state in which the computed property \<^verbatim>\<open>sum\<close> is being computed.\<close>

theorem cross_reference_witness:
  \<open>get_upd (map_upd (\<lambda>x. x\<lparr>u_computing := True\<rparr>) 0 st_sum) 0
     = Some (upds (map_upd (\<lambda>x. x\<lparr>u_computing := True\<rparr>) 0 st_sum) ! 0)
   \<and> u_computing (upds (map_upd (\<lambda>x. x\<lparr>u_computing := True\<rparr>) 0 st_sum) ! 0)
   \<and> updatableFunction 1 (map_upd (\<lambda>x. x\<lparr>u_computing := True\<rparr>) 0 st_sum) 0 (VObj 0) =
       Some (Inr VUndef, (map_upd (\<lambda>x. x\<lparr>u_computing := True\<rparr>) 0 st_sum)\<lparr>warnings :=
         warnings (map_upd (\<lambda>x. x\<lparr>u_computing := True\<rparr>) 0 st_sum) @
         [''Detected cross reference inside computed properties! "undefined" will be returned to prevent infinite loop'']\<rparr>)\<close>
proof -
  let ?s = "map_upd (\<lambda>x. x\<lparr>u_computing := True\<rparr>) 0 st_sum"
  have h1: "get_upd ?s 0 = Some (upds ?s ! 0)" by code_simp
  have h2: "u_computing (upds ?s ! 0)" by code_simp
  show ?thesis using h1 h2 cross_reference [OF h1 h2, of 0 "VObj 0"] by simp
qed

text \<open>
  The test \<^verbatim>\<open>Cross reference inside computed properties\<close>: with \<^verbatim>\<open>comp1 = self => self.comp2\<close>
  and \<^verbatim>\<open>comp2 = self => self.comp1\<close>, the read \<^verbatim>\<open>d.comp2\<close> returns \<^verbatim>\<open>undefined\<close> and warns once.
\<close>

lemma cross_reference_test:
  "the_val (get_trap 30
      (snd (makeComputed (snd (makeComputed st_observed (VProxy 0) (KStr ''comp1'') (VFun 3) VUndef))
              (VProxy 0) (KStr ''comp2'') (VFun 4) VUndef)) 0 (KStr ''comp2'')) = Inr VUndef
   \<and> warnings (the_state (get_trap 30
      (snd (makeComputed (snd (makeComputed st_observed (VProxy 0) (KStr ''comp1'') (VFun 3) VUndef))
              (VProxy 0) (KStr ''comp2'') (VFun 4) VUndef)) 0 (KStr ''comp2'')))
     = [cross_reference_warning]"
  by code_simp




text \<open>
  The whole scenario through the get trap: the first read of \<^verbatim>\<open>d.five\<close> executes the function,
  returns 3 and leaves the updatable invalid; so the second read executes it again, and then
  the updatable is valid.
\<close>

lemma writes_during_derivation_test:
  "the_val (getV 30 st_five (VProxy 0) (KStr ''five'')) = Inr (VNum 3)
   \<and> executions (the_state (getV 30 st_five (VProxy 0) (KStr ''five''))) 0 = 1
   \<and> \<not> u_valid (upds (the_state (getV 30 st_five (VProxy 0) (KStr ''five''))) ! 0)
   \<and> the_val (getV 30 (the_state (getV 30 st_five (VProxy 0) (KStr ''five''))) (VProxy 0) (KStr ''five''))
       = Inr (VNum 3)
   \<and> executions (the_state (getV 30 (the_state (getV 30 st_five (VProxy 0) (KStr ''five'')))
         (VProxy 0) (KStr ''five''))) 0 = 2
   \<and> u_valid (upds (the_state (getV 30 (the_state (getV 30 st_five (VProxy 0) (KStr ''five'')))
         (VProxy 0) (KStr ''five''))) ! 0)"
  by code_simp




text \<open>
  C9, as stated, fails when the \<^verbatim>\<open>this\<close> of the invocation is truthy and has no wrapper: the
  context is then \<^verbatim>\<open>undefined\<close>, not the manager. With \<^verbatim>\<open>m.makeComputed(obj, "self", function () {
  return this })\<close> on a source object that was never observed, the read \<^verbatim>\<open>obj.self\<close> executes the
  function once, with the context \<^verbatim>\<open>undefined\<close>, and returns \<^verbatim>\<open>undefined\<close>. The same holds when
  \<^verbatim>\<open>this\<close> is itself a wrapper, since \<^verbatim>\<open>manager.observables\<close> is keyed by the sources.
\<close>

theorem context_undefined:
  "the_val (getV 30 st_unobserved (VObj 0) (KStr ''self'')) = Inr VUndef
   \<and> calls (the_state (getV 30 st_unobserved (VObj 0) (KStr ''self''))) = [(0, VUndef)]
   \<and> the_val (updatableFunction 30 st_self 0 (VProxy 0)) = Inr VUndef
   \<and> calls (the_state (updatableFunction 30 st_self 0 (VProxy 0))) = [(0, VUndef)]"
  by code_simp

text \<open>
  C9, amended. An invocation of an updatable function that recomputes executes the user
  function once, as \<^verbatim>\<open>fn.call(context, context)\<close>: a function that returns its \<^verbatim>\<open>this\<close> and one
  that returns its first argument both return the context. For a falsy \<^verbatim>\<open>this\<close> the context
  is the manager. For a truthy \<^verbatim>\<open>this\<close> it is \<^verbatim>\<open>manager.observables.get(this)\<close>: the wrapper of
  \<^verbatim>\<open>this\<close> when \<^verbatim>\<open>this\<close> is a source object that has one, and \<^verbatim>\<open>undefined\<close> otherwise.
\<close>

theorem context_of_the_call:
  assumes "get_upd s u = Some st" and "\<not> u_computing st" and "\<not> u_valid st"
    and "u_call st = VFun i" and "nth_opt (funs s) i = Some body"
    and "updatableFunction (Suc n) s u th = Some (r, s')"
  shows "\<exists>ctx. prefix (calls s @ [(u, ctx)]) (calls s')
           \<and> executions s' u = executions s u + 1
           \<and> (body = This \<or> body = Arg \<longrightarrow> r = Inr ctx)
           \<and> (\<not> truthy th \<longrightarrow> ctx = VManager)
           \<and> (truthy th \<longrightarrow>
                ctx = (case th of
                         VObj a \<Rightarrow> (case map_of (observables s) a of
                                      Some p \<Rightarrow> VProxy p | None \<Rightarrow> VUndef)
                       | _ \<Rightarrow> VUndef))"
proof -
  let ?ctx = "call_context s th"
  have tf: "typeof_function (u_call st)" using assms(4) by simp
  note run = updatableFunction_run [OF assms(1,2,3,6)]
  have p: "prefix (calls s @ [(u, ?ctx)]) (calls s')" using run(1) tf by simp
  have e: "executions s' u = executions s u + 1" using run(2) tf by simp
  have ret: "r = Inr ?ctx" if b: "body = This \<or> body = Arg"
  proof -
    from updatableFunction_recompute [OF assms(1,2,3,6)]
    obtain s6 r7 s7 where
      c: "exec n s6 (C_call_fn (u_call st) ?ctx ?ctx) = Some (r7, s7)"
      and l6: "length (upds s6) = length (upds s)"
      and f6: "funs s6 = funs s"
      and fin: "u < length (upds s7) \<longrightarrow> \<not> u_computing (upds s' ! u)
              \<and> (case r7 of
                    Inl e \<Rightarrow> r = Inl e \<and> u_valid (upds s' ! u) = u_valid (upds s7 ! u)
                  | Inr v \<Rightarrow> r = Inr v \<and> u_value (upds s' ! u) = v
                             \<and> u_valid (upds s' ! u) = (\<not> u_invalidIteration (upds s7 ! u)))"
      by blast
    obtain n1 where n1: "n = Suc n1" using c by (cases n) (simp_all add: exec_0)
    have c1: "exec n1 s6 (C_eval ?ctx ?ctx body) = Some (r7, s7)"
      using c assms(4,5) f6 unfolding n1 by (simp add: exec_Suc call_fn_body_def)
    obtain n2 where n2: "n1 = Suc n2" using c1 by (cases n1) (simp_all add: exec_0)
    have "r7 = Inr ?ctx \<and> s7 = s6"
      using c1 b unfolding n2 by (auto simp: exec_Suc eval_body_def ok_def)
    moreover have "u < length (upds s6)" using get_upd_Some [OF assms(1)] l6 by simp
    ultimately show ?thesis using fin by simp
  qed
  have f: "\<not> truthy th \<longrightarrow> ?ctx = VManager" by (simp add: call_context_def)
  have t: "truthy th \<longrightarrow>
             ?ctx = (case th of
                       VObj a \<Rightarrow> (case map_of (observables s) a of
                                    Some p \<Rightarrow> VProxy p | None \<Rightarrow> VUndef)
                     | _ \<Rightarrow> VUndef)"
    by (simp add: call_context_def)
  show ?thesis using p e ret f t by blast
qed

text \<open>
  The theorem for the computed property \<^verbatim>\<open>function () { return this }\<close> on the observed data of
  the tests, called by the get trap with the source object as \<^verbatim>\<open>this\<close>: the function is
  executed once and returns the wrapper \<^verbatim>\<open>d\<close>.
\<close>

theorem context_of_the_call_witness:
  "get_upd st_self 0 = Some (upds st_self ! 0)
   \<and> \<not> u_computing (upds st_self ! 0) \<and> \<not> u_valid (upds st_self ! 0)
   \<and> u_call (upds st_self ! 0) = VFun 10
   \<and> nth_opt (funs st_self) 10 = Some This
   \<and> truthy (VObj 0)
   \<and> map_of (observables st_self) 0 = Some 0
   \<and> calls st_self = []
   \<and> updatableFunction 3 st_self 0 (VObj 0)
       = Some (the_val (updatableFunction 3 st_self 0 (VObj 0)),
               the_state (updatableFunction 3 st_self 0 (VObj 0)))
   \<and> the_val (updatableFunction 3 st_self 0 (VObj 0)) = Inr (VProxy 0)
   \<and> prefix [(0, VProxy 0)] (calls (the_state (updatableFunction 3 st_self 0 (VObj 0))))
   \<and> executions (the_state (updatableFunction 3 st_self 0 (VObj 0))) 0 = executions st_self 0 + 1"
proof -
  let ?s' = "the_state (updatableFunction 3 st_self 0 (VObj 0))"
  have h1: "get_upd st_self 0 = Some (upds st_self ! 0)" by code_simp
  have h2: "\<not> u_computing (upds st_self ! 0)" by code_simp
  have h3: "\<not> u_valid (upds st_self ! 0)" by code_simp
  have h4: "u_call (upds st_self ! 0) = VFun 10" by code_simp
  have h5: "nth_opt (funs st_self) 10 = Some This" by code_simp
  have h6: "updatableFunction (Suc 2) st_self 0 (VObj 0)
       = Some (the_val (updatableFunction 3 st_self 0 (VObj 0)), ?s')"
    by code_simp
  have t: "truthy (VObj 0)" by simp
  have o: "map_of (observables st_self) 0 = Some 0" by code_simp
  have c: "calls st_self = []" by code_simp
  from context_of_the_call [OF h1 h2 h3 h4 h5 h6] t o c
  have "prefix [(0, VProxy 0)] (calls ?s')
        \<and> executions ?s' 0 = executions st_self 0 + 1
        \<and> the_val (updatableFunction 3 st_self 0 (VObj 0)) = Inr (VProxy 0)"
    by auto
  then show ?thesis using h1 h2 h3 h4 h5 h6 t o c by simp
qed




end
